theory Spec2Isabelle
  imports Complex_Main
begin

section \<open>JavaScript strings and the regular expressions of the source\<close>

text \<open>
  A JavaScript string is a sequence of UTF-16 code units; the regular expressions of the
  source carry no \<open>u\<close> flag, so they match code unit by code unit. A string is modelled
  as the list of its code units.
\<close>

type_synonym jstring = "nat list"

definition js :: "string \<Rightarrow> jstring" where
  "js s = map of_char s"

text \<open>The non-ASCII characters the source mentions, as UTF-16 code units.\<close>

definition arrow :: jstring where
  "arrow = [8594]"

definition yellow :: jstring where
  "yellow = [55357, 57313]"

definition green :: jstring where
  "green = [55357, 57314]"

definition check_mark :: jstring where
  "check_mark = [9989]"

definition red :: jstring where
  "red = [55357, 56628]"

text \<open>The character classes \<open>\s\<close>, \<open>\d\<close>, \<open>\w\<close>, \<open>[^\n]\<close> and \<open>[\s\S]\<close>.\<close>

definition is_space :: "nat \<Rightarrow> bool" where
  "is_space c = (c \<in> {9, 10, 11, 12, 13, 32, 160, 5760, 8232, 8233, 8239, 8287, 12288, 65279}
     \<or> (8192 \<le> c \<and> c \<le> 8202))"

definition is_digit :: "nat \<Rightarrow> bool" where
  "is_digit c = (48 \<le> c \<and> c \<le> 57)"

definition is_word :: "nat \<Rightarrow> bool" where
  "is_word c = (is_digit c \<or> (65 \<le> c \<and> c \<le> 90) \<or> (97 \<le> c \<and> c \<le> 122) \<or> c = 95)"

definition not_newline :: "nat \<Rightarrow> bool" where
  "not_newline c = (c \<noteq> 10)"

definition any_unit :: "nat \<Rightarrow> bool" where
  "any_unit c = True"

text \<open>\<open>String.prototype.startsWith\<close>, \<open>trim\<close>, \<open>split('\n')\<close>, \<open>indexOf\<close>.\<close>

fun startsWith :: "jstring \<Rightarrow> jstring \<Rightarrow> bool" where
  "startsWith s [] = True"
| "startsWith [] (p # ps) = False"
| "startsWith (c # cs) (p # ps) = (if c = p then startsWith cs ps else False)"

definition trim :: "jstring \<Rightarrow> jstring" where
  "trim s = rev (dropWhile is_space (rev (dropWhile is_space s)))"

fun split_lines :: "jstring \<Rightarrow> jstring list" where
  "split_lines [] = [[]]"
| "split_lines (c # cs) =
     (if c = 10 then [] # split_lines cs
      else (case split_lines cs of l # ls \<Rightarrow> (c # l) # ls | [] \<Rightarrow> [[c]]))"

fun indexOf :: "jstring \<Rightarrow> jstring \<Rightarrow> nat option" where
  "indexOf [] p = (if p = [] then Some 0 else None)"
| "indexOf (c # cs) p =
     (if startsWith (c # cs) p then Some 0 else map_option Suc (indexOf cs p))"

text \<open>
  \<open>toLowerCase\<close> on ASCII letters. The source lowers the \<open>\w+\<close> captures of the From/To
  line, which are ASCII, and the README review, where only the ASCII phrase is looked for.
\<close>

definition toLowerCase :: "jstring \<Rightarrow> jstring" where
  "toLowerCase s = map (\<lambda>c. if 65 \<le> c \<and> c \<le> 90 then c + 32 else c) s"

text \<open>
  The patterns of the source are sequences of literals, alternatives of literals, greedy
  and lazy repetitions of one character class, and capture groups that are not nested.
  \<open>Greedy c k\<close> is \<open>c*\<close> for \<open>k = 0\<close> and \<open>c+\<close> for \<open>k = 1\<close>; \<open>Lazy c\<close> is \<open>c*?\<close>.
\<close>

datatype rx =
    Lit jstring
  | Alt "jstring list"
  | Greedy "nat \<Rightarrow> bool" nat
  | Lazy "nat \<Rightarrow> bool"
  | GOpen
  | GClose

text \<open>
  The backtracking matcher, anchored at the head of the string: \<open>n\<close> counts the code units
  consumed, \<open>os\<close> holds the start of each open group and \<open>gs\<close> the closed groups as
  (start, end). The result is the length of the match and its groups.
\<close>

fun rx_weight :: "rx list \<Rightarrow> nat" where
  "rx_weight [] = 0"
| "rx_weight (Alt ls # r) = Suc (length ls + rx_weight r)"
| "rx_weight (x # r) = Suc (rx_weight r)"

function (sequential) bt :: "rx list \<Rightarrow> jstring \<Rightarrow> nat \<Rightarrow> nat list \<Rightarrow> (nat \<times> nat) list
    \<Rightarrow> (nat \<times> (nat \<times> nat) list) option" where
  "bt [] s n os gs = Some (n, gs)"
| "bt (Lit l # r) s n os gs =
     (if startsWith s l then bt r (drop (length l) s) (n + length l) os gs else None)"
| "bt (Alt [] # r) s n os gs = None"
| "bt (Alt (l # ls) # r) s n os gs =
     (case (if startsWith s l then bt r (drop (length l) s) (n + length l) os gs else None) of
        Some m \<Rightarrow> Some m
      | None \<Rightarrow> bt (Alt ls # r) s n os gs)"
| "bt (Greedy c k # r) [] n os gs = (if k = 0 then bt r [] n os gs else None)"
| "bt (Greedy c k # r) (x # xs) n os gs =
     (if c x then
        (case bt (Greedy c (k - 1) # r) xs (Suc n) os gs of
           Some m \<Rightarrow> Some m
         | None \<Rightarrow> if k = 0 then bt r (x # xs) n os gs else None)
      else if k = 0 then bt r (x # xs) n os gs else None)"
| "bt (Lazy c # r) [] n os gs = bt r [] n os gs"
| "bt (Lazy c # r) (x # xs) n os gs =
     (case bt r (x # xs) n os gs of
        Some m \<Rightarrow> Some m
      | None \<Rightarrow> if c x then bt (Lazy c # r) xs (Suc n) os gs else None)"
| "bt (GOpen # r) s n os gs = bt r s n (n # os) gs"
| "bt (GClose # r) s n os gs =
     (case os of [] \<Rightarrow> bt r s n os gs | a # os' \<Rightarrow> bt r s n os' (gs @ [(a, n)]))"
  by pat_completeness auto
termination
  by (relation "measure (\<lambda>(p, s, n, os, gs). length s + rx_weight p)") auto


text \<open>
  \<open>RegExp.prototype.exec\<close> without the sticky flag: the first position, from the left, at
  which the pattern matches; the result is (index, length, groups), the groups relative to
  the index.
\<close>

fun search :: "rx list \<Rightarrow> jstring \<Rightarrow> nat \<Rightarrow> (nat \<times> nat \<times> (nat \<times> nat) list) option" where
  "search p [] i =
     (case bt p [] 0 [] [] of Some (len, gs) \<Rightarrow> Some (i, len, gs) | None \<Rightarrow> None)"
| "search p (c # cs) i =
     (case bt p (c # cs) 0 [] [] of
        Some (len, gs) \<Rightarrow> Some (i, len, gs)
      | None \<Rightarrow> search p cs (Suc i))"

definition groups_of :: "jstring \<Rightarrow> nat \<Rightarrow> (nat \<times> nat) list \<Rightarrow> jstring list" where
  "groups_of s i gs = map (\<lambda>(a, b). take (b - a) (drop (i + a) s)) gs"

text \<open>\<open>s.match(re)\<close> for a pattern without the \<open>g\<close> flag: the match, then its groups.\<close>

definition rx_match :: "rx list \<Rightarrow> jstring \<Rightarrow> jstring list option" where
  "rx_match p s =
     (case search p s 0 of
        None \<Rightarrow> None
      | Some (i, len, gs) \<Rightarrow> Some (take len (drop i s) # groups_of s i gs))"

text \<open>
  The replacement patterns of \<open>String.prototype.replace\<close> (GetSubstitution of the language
  standard): \<open>$$\<close>, \<open>$&\<close>, the text before and after the match, and \<open>$n\<close>, \<open>$nn\<close>; the
  source has no named groups. \<open>m\<close> is the match, \<open>b\<close> and \<open>a\<close> the text before and after
  it, \<open>cs\<close> the groups.
\<close>

definition one_digit :: "nat \<Rightarrow> jstring list \<Rightarrow> jstring" where
  "one_digit d cs =
     (if 1 \<le> d - 48 \<and> d - 48 \<le> length cs then cs ! (d - 49) else [36, d])"

fun expand :: "jstring \<Rightarrow> jstring \<Rightarrow> jstring \<Rightarrow> jstring \<Rightarrow> jstring list \<Rightarrow> jstring" where
  "expand [] m b a cs = []"
| "expand [c] m b a cs = [c]"
| "expand (c # d # t) m b a cs =
     (if c \<noteq> 36 then c # expand (d # t) m b a cs
      else if d = 36 then 36 # expand t m b a cs
      else if d = 38 then m @ expand t m b a cs
      else if d = 96 then b @ expand t m b a cs
      else if d = 39 then a @ expand t m b a cs
      else if is_digit d then
        (case t of
           [] \<Rightarrow> one_digit d cs
         | e # t' \<Rightarrow>
             if is_digit e \<and> (d - 48) * 10 + (e - 48) \<le> length cs then
               (if 1 \<le> (d - 48) * 10 + (e - 48)
                then cs ! ((d - 48) * 10 + (e - 48) - 1) else [36, d, e])
               @ expand t' m b a cs
             else one_digit d cs @ expand (e # t') m b a cs)
      else 36 # expand (d # t) m b a cs)"

definition substitution :: "jstring \<Rightarrow> jstring \<Rightarrow> nat \<Rightarrow> nat \<Rightarrow> (nat \<times> nat) list \<Rightarrow> jstring" where
  "substitution t S i len gs =
     expand t (take len (drop i S)) (take i S) (drop (i + len) S) (groups_of S i gs)"

text \<open>\<open>S.replace(re, t)\<close> without the \<open>g\<close> flag: the first match only.\<close>

definition rx_replace :: "rx list \<Rightarrow> jstring \<Rightarrow> jstring \<Rightarrow> jstring" where
  "rx_replace p t S =
     (case search p S 0 of
        None \<Rightarrow> S
      | Some (i, len, gs) \<Rightarrow> take i S @ substitution t S i len gs @ drop (i + len) S)"

text \<open>
  \<open>S.replace(re, t)\<close> with the \<open>g\<close> flag: every match from the left, the next search
  starting where the last match ended (one unit further after an empty match). \<open>i\<close> is the
  position in \<open>S\<close>, the list is \<open>S\<close> from \<open>i\<close> on, and \<open>k\<close> units still belong to the
  last match.
\<close>

fun replace_from :: "rx list \<Rightarrow> jstring \<Rightarrow> jstring \<Rightarrow> nat \<Rightarrow> jstring \<Rightarrow> nat \<Rightarrow> jstring" where
  "replace_from p t S i [] k =
     (if k = 0 then
        (case bt p [] 0 [] [] of Some (len, gs) \<Rightarrow> substitution t S i len gs | None \<Rightarrow> [])
      else [])"
| "replace_from p t S i (c # cs) (Suc k) = replace_from p t S (Suc i) cs k"
| "replace_from p t S i (c # cs) 0 =
     (case bt p (c # cs) 0 [] [] of
        None \<Rightarrow> c # replace_from p t S (Suc i) cs 0
      | Some (len, gs) \<Rightarrow>
          substitution t S i len gs @
          (if len = 0 then c # replace_from p t S (Suc i) cs 0
           else replace_from p t S (Suc i) cs (len - 1)))"

definition rx_replace_all :: "rx list \<Rightarrow> jstring \<Rightarrow> jstring \<Rightarrow> jstring" where
  "rx_replace_all p t S = replace_from p t S 0 S 0"

text \<open>\<open>S.replace(pat, t)\<close> with a string pattern: the first occurrence only.\<close>

definition str_replace :: "jstring \<Rightarrow> jstring \<Rightarrow> jstring \<Rightarrow> jstring" where
  "str_replace S pat t =
     (case indexOf S pat of
        None \<Rightarrow> S
      | Some i \<Rightarrow>
          take i S @ expand t pat (take i S) (drop (i + length pat) S) []
          @ drop (i + length pat) S)"

text \<open>
  \<open>S.split(re)\<close> for a pattern without groups: \<open>cur\<close> is the piece being read and \<open>k\<close>
  counts the units that still belong to the last separator. A separator is looked for at
  each position before the end; an empty match at the start of a piece is passed over.
\<close>

fun split_from :: "rx list \<Rightarrow> jstring \<Rightarrow> nat \<Rightarrow> jstring \<Rightarrow> jstring list" where
  "split_from p [] k cur = [cur]"
| "split_from p (c # cs) (Suc k) cur = split_from p cs k cur"
| "split_from p (c # cs) 0 cur =
     (case bt p (c # cs) 0 [] [] of
        None \<Rightarrow> split_from p cs 0 (cur @ [c])
      | Some (len, gs) \<Rightarrow>
          if len = 0 then
            (if cur = [] then split_from p cs 0 [c] else cur # split_from p cs 0 [c])
          else cur # split_from p cs (len - 1) [])"

definition rx_split :: "rx list \<Rightarrow> jstring \<Rightarrow> jstring list" where
  "rx_split p S =
     (if S = [] then (case bt p [] 0 [] [] of Some m \<Rightarrow> [] | None \<Rightarrow> [[]])
      else split_from p S 0 [])"

section \<open>The ledger parser: \<open>TeamAgent.parseQABoard\<close>\<close>

text \<open>A thrown value: the name of its class and its message.\<close>

datatype exn = Exn jstring jstring

definition Error :: "jstring \<Rightarrow> exn" where
  "Error msg = Exn (js ''Error'') msg"

definition TypeError :: "jstring \<Rightarrow> exn" where
  "TypeError msg = Exn (js ''TypeError'') msg"

text \<open>\<open>error.message\<close>, and \<open>String(error)\<close> as a template literal renders it.\<close>

fun message :: "exn \<Rightarrow> jstring" where
  "message (Exn name msg) = msg"

fun to_string :: "exn \<Rightarrow> jstring" where
  "to_string (Exn name msg) = name @ js '': '' @ msg"

text \<open>
  \<open>Partial<QAQuestion>\<close>: the parser sets \<open>id\<close> and \<open>questionTitle\<close> first and the other
  fields only when their line is found. The status is typed as one of four glyph-and-word
  strings, but the parser stores what its pattern matched.
\<close>

record question =
  qid :: jstring
  askedBy :: "jstring option"
  askedTo :: "jstring option"
  category :: "jstring option"
  status :: "jstring option"
  priority :: "jstring option"
  questionTitle :: jstring
  questionBody :: "jstring option"
  qcontext :: "jstring option"
  answerBody :: "jstring option"
  answeredBy :: "jstring option"
  answeredAt :: "jstring option"

text \<open>The patterns of the parser, in the order of the source.\<close>

definition header_rx :: "rx list" where
  "header_rx = [Lit (js ''###''), Greedy is_space 1, Lit (js ''[Q-''), Greedy is_digit 1,
     Lit (js '']'')]"

definition digits_rx :: "rx list" where
  "digits_rx = [Greedy is_digit 1]"

definition title_tag_rx :: "rx list" where
  "title_tag_rx = [Lit (js ''[Q-''), Greedy is_digit 1, Lit (js '']''), Greedy is_space 0]"

definition from_to_rx :: "rx list" where
  "from_to_rx = [Lit (js ''**From**:''), Greedy is_space 0, GOpen, Greedy is_word 1, GClose,
     Greedy is_space 0, Lit arrow, Greedy is_space 0, Lit (js ''**To**:''), Greedy is_space 0,
     GOpen, Greedy is_word 1, GClose]"

definition status_rx :: "rx list" where
  "status_rx = [GOpen, Alt [yellow, green, check_mark, red], GClose]"

text \<open>\<open>markdown.split(/###\s+\[Q-\d+\]/g).slice(1)\<close>.\<close>

definition questionBlocks :: "jstring \<Rightarrow> jstring list" where
  "questionBlocks markdown = drop 1 (rx_split header_rx markdown)"

text \<open>The body of the loop over the lines of a block: an \<open>if\<close>/\<open>else if\<close> chain.\<close>

definition parse_line :: "question \<Rightarrow> jstring \<Rightarrow> question" where
  "parse_line q line =
     (if startsWith line (js ''**From**:'') then
        (case rx_match from_to_rx line of
           Some [m0, m1, m2] \<Rightarrow>
             q\<lparr>askedBy := Some (toLowerCase m1), askedTo := Some (toLowerCase m2)\<rparr>
         | _ \<Rightarrow> q)
      else if startsWith line (js ''**Status**:'') then
        q\<lparr>status := (case rx_match status_rx line of Some (m0 # ms) \<Rightarrow> Some m0 | _ \<Rightarrow> None)\<rparr>
      else if startsWith line (js ''**Question**:'') then
        q\<lparr>questionBody := Some (trim (str_replace line (js ''**Question**:'') []))\<rparr>
      else if startsWith line (js ''**Answer**:'') then
        (let answer = trim (str_replace line (js ''**Answer**:'') [])
         in if \<not> startsWith answer (js ''_Waiting'') then q\<lparr>answerBody := Some answer\<rparr> else q)
      else q)"

text \<open>
  One block, given the lines of its trimmed text: the id is \<open>Q-\<close> and the first run of
  digits of the title line, or \<open>000\<close>; then the loop over the lines.
\<close>

definition read_block :: "jstring \<Rightarrow> jstring list \<Rightarrow> question" where
  "read_block l0 ls =
     (let titleLine = trim l0;
          q = \<lparr>qid = js ''Q-'' @
                (case rx_match digits_rx titleLine of
                   Some (m0 # ms) \<Rightarrow> if m0 = [] then js ''000'' else m0
                 | _ \<Rightarrow> js ''000''),
               askedBy = None, askedTo = None, category = None, status = None,
               priority = None,
               questionTitle = rx_replace title_tag_rx [] titleLine,
               questionBody = None, qcontext = None, answerBody = None,
               answeredBy = None, answeredAt = None\<rparr>
      in foldl parse_line q (l0 # ls))"

text \<open>
  \<open>lines[0]\<close> of an empty array would be \<open>undefined\<close> and its \<open>trim\<close> a TypeError.
\<close>

definition parse_block :: "jstring \<Rightarrow> exn + question" where
  "parse_block block =
     (case split_lines (trim block) of
        [] \<Rightarrow> Inl (TypeError (js ''Cannot read properties of undefined''))
      | l0 # ls \<Rightarrow> Inr (read_block l0 ls))"

text \<open>The title line of a block: the first line of its trimmed text, trimmed.\<close>

definition titleLine :: "jstring \<Rightarrow> jstring" where
  "titleLine block = (case split_lines (trim block) of [] \<Rightarrow> [] | l0 # ls \<Rightarrow> trim l0)"

text \<open>A string or an optional string that JavaScript takes for true.\<close>

definition truthy :: "jstring option \<Rightarrow> bool" where
  "truthy v = (case v of None \<Rightarrow> False | Some s \<Rightarrow> s \<noteq> [])"

text \<open>The condition under which the loop pushes the record of a block.\<close>

definition complete :: "question \<Rightarrow> bool" where
  "complete q = (qid q \<noteq> [] \<and> truthy (askedTo q) \<and> truthy (askedBy q))"

text \<open>The loop over the blocks, \<open>questions\<close> being the array pushed to.\<close>

fun parse_blocks :: "jstring list \<Rightarrow> question list \<Rightarrow> exn + question list" where
  "parse_blocks [] questions = Inr questions"
| "parse_blocks (block # bs) questions =
     (case parse_block block of
        Inl e \<Rightarrow> Inl e
      | Inr q \<Rightarrow> parse_blocks bs (if complete q then questions @ [q] else questions))"

definition parseQABoard :: "jstring \<Rightarrow> exn + question list" where
  "parseQABoard markdown = parse_blocks (questionBlocks markdown) []"

section \<open>The ledger mutator: the text transformation of \<open>TeamAgent.updateQABoard\<close>\<close>

text \<open>
  The two patterns are built from a template string into which the question id is put
  unescaped. The ids the parser produces are \<open>Q-\<close> and digits, which stand for
  themselves in a pattern; the model takes the id as a literal.
\<close>

definition answer_rx :: "jstring \<Rightarrow> rx list" where
  "answer_rx questionId =
     [GOpen, Lit (js ''### ['' @ questionId @ js '']''), Lazy any_unit, Lit (js ''**Answer**:''),
      GClose, Greedy is_space 0, Lit (js ''_Waiting''), Greedy not_newline 0]"

definition open_status_rx :: "jstring \<Rightarrow> rx list" where
  "open_status_rx questionId =
     [GOpen, Lit (js ''### ['' @ questionId @ js '']''), Lazy any_unit, Lit (js ''**Status**:''),
      GClose, Greedy is_space 0, Lit (yellow @ js '' Open'')]"

text \<open>
  \<open>content\<close> is the ledger as loaded, \<open>timestamp\<close> the date part of the clock and
  \<open>displayName\<close> the team's. The answer is put into the replacement string, where \<open>$\<close>
  patterns are expanded.
\<close>

definition updateQABoard_text :: "jstring \<Rightarrow> jstring \<Rightarrow> jstring \<Rightarrow> jstring \<Rightarrow> jstring \<Rightarrow> jstring" where
  "updateQABoard_text content questionId answer timestamp displayName =
     (let content1 = rx_replace_all (answer_rx questionId)
            (js ''$1 '' @ answer @ [10, 10] @ js ''**Answered**: '' @ timestamp @ js '' by ''
               @ displayName @ js '' (Autonomous Agent)'')
            content
      in rx_replace_all (open_status_rx questionId) (js ''$1 '' @ green @ js '' Answered'')
           content1)"

section \<open>The version-control host\<close>

text \<open>
  \<open>GitHubClient\<close> talks to the host's REST interface. The host is not part of the
  repository; it is modelled as a Git object store per repository: blobs, trees and commits
  are immutable objects named by a number (their place in the store), a blob's name being
  a function of its content as in Git (storing a content twice gives the same name), and a
  branch is a reference to a commit. A tree is taken flat, as the map from each path to
  (mode, type, blob). What the contents endpoint answers is not derived from the object
  store: \<open>Decoded s\<close> is a payload for which \<open>atob\<close> returns \<open>s\<close>.
\<close>

record commit_obj =
  c_message :: jstring
  c_tree :: nat
  c_parents :: "nat list"

type_synonym tree = "jstring \<rightharpoonup> jstring \<times> jstring \<times> nat"

datatype payload = NoContent | Decoded jstring | Undecodable

record repo =
  refs :: "jstring \<rightharpoonup> nat"
  commits :: "commit_obj list"
  trees :: "tree list"
  blobs :: "jstring list"
  files :: "jstring \<times> jstring \<rightharpoonup> payload"

text \<open>
  A request can fail for reasons outside the model (the network, a rate limit, a server
  error): \<open>faults g n\<close> says whether the \<open>n\<close>-th request fails and how. A failed request
  changes nothing on the host.
\<close>

datatype fault = NetworkFault | HttpFault nat jstring

record github =
  repos :: "jstring \<times> jstring \<rightharpoonup> repo"
  requests :: nat
  faults :: "nat \<Rightarrow> fault option"
  issues :: "(jstring \<times> jstring \<times> jstring \<times> jstring \<times> jstring list) list"
  pulls :: "(jstring \<times> jstring \<times> jstring \<times> jstring \<times> jstring \<times> jstring) list"

text \<open>\<open>GitHubFile\<close>, and an entry of the tree request.\<close>

record GitHubFile =
  path :: jstring
  content :: jstring

record tree_entry =
  e_path :: jstring
  e_mode :: jstring
  e_type :: jstring
  e_sha :: nat

fun decimal :: "nat \<Rightarrow> jstring" where
  "decimal n = (if n < 10 then [48 + n] else decimal (n div 10) @ [48 + n mod 10])"

declare decimal.simps [simp del]

fun index_of :: "'a \<Rightarrow> 'a list \<Rightarrow> nat option" where
  "index_of x [] = None"
| "index_of x (y # ys) = (if x = y then Some 0 else map_option Suc (index_of x ys))"

definition not_found :: "nat \<times> jstring" where
  "not_found = (404, js ''Not Found'')"

definition unprocessable :: "nat \<times> jstring" where
  "unprocessable = (422, js ''Unprocessable Entity'')"

text \<open>An endpoint on one repository: 404 when the repository does not exist.\<close>

definition on_repo :: "jstring \<Rightarrow> jstring \<Rightarrow> (repo \<Rightarrow> (nat \<times> jstring + 'a) \<times> repo)
    \<Rightarrow> github \<Rightarrow> (nat \<times> jstring + 'a) \<times> github" where
  "on_repo owner rname f g =
     (case repos g (owner, rname) of
        None \<Rightarrow> (Inl not_found, g)
      | Some rp \<Rightarrow>
          (case f rp of (out, rp') \<Rightarrow> (out, g\<lparr>repos := (repos g)((owner, rname) \<mapsto> rp')\<rparr>)))"

text \<open>\<open>GET /repos/o/r/git/refs/heads/b\<close>: the commit the branch refers to.\<close>

definition get_ref :: "jstring \<Rightarrow> repo \<Rightarrow> (nat \<times> jstring + nat) \<times> repo" where
  "get_ref branch rp =
     (case refs rp branch of None \<Rightarrow> (Inl not_found, rp) | Some sha \<Rightarrow> (Inr sha, rp))"

text \<open>\<open>POST /repos/o/r/git/refs\<close> with \<open>refs/heads/b\<close>: a new branch.\<close>

definition post_ref :: "jstring \<Rightarrow> nat \<Rightarrow> repo \<Rightarrow> (nat \<times> jstring + unit) \<times> repo" where
  "post_ref branch sha rp =
     (if refs rp branch \<noteq> None \<or> \<not> sha < length (commits rp) then (Inl unprocessable, rp)
      else (Inr (), rp\<lparr>refs := (refs rp)(branch \<mapsto> sha)\<rparr>))"

text \<open>\<open>GET /repos/o/r/git/commits/sha\<close>: the tree of the commit.\<close>

definition get_commit :: "nat \<Rightarrow> repo \<Rightarrow> (nat \<times> jstring + nat) \<times> repo" where
  "get_commit sha rp =
     (if sha < length (commits rp) then (Inr (c_tree (commits rp ! sha)), rp)
      else (Inl not_found, rp))"

text \<open>\<open>POST /repos/o/r/git/blobs\<close>: the name of the blob of this content.\<close>

definition post_blob :: "jstring \<Rightarrow> repo \<Rightarrow> (nat \<times> jstring + nat) \<times> repo" where
  "post_blob text rp =
     (case index_of text (blobs rp) of
        Some sha \<Rightarrow> (Inr sha, rp)
      | None \<Rightarrow> (Inr (length (blobs rp)), rp\<lparr>blobs := blobs rp @ [text]\<rparr>))"

text \<open>
  \<open>POST /repos/o/r/git/trees\<close>: the base tree with each entry of the request laid over
  it, a later entry for a path replacing an earlier one.
\<close>

definition overlay :: "tree \<Rightarrow> tree_entry list \<Rightarrow> tree" where
  "overlay base es = foldl (\<lambda>t e. t(e_path e \<mapsto> (e_mode e, e_type e, e_sha e))) base es"

definition post_tree :: "nat \<Rightarrow> tree_entry list \<Rightarrow> repo \<Rightarrow> (nat \<times> jstring + nat) \<times> repo" where
  "post_tree base es rp =
     (if \<not> base < length (trees rp) then (Inl not_found, rp)
      else if \<exists>e \<in> set es. \<not> e_sha e < length (blobs rp) then (Inl unprocessable, rp)
      else (Inr (length (trees rp)), rp\<lparr>trees := trees rp @ [overlay (trees rp ! base) es]\<rparr>))"

text \<open>\<open>POST /repos/o/r/git/commits\<close>: a new commit object.\<close>

definition post_commit :: "jstring \<Rightarrow> nat \<Rightarrow> nat list \<Rightarrow> repo \<Rightarrow> (nat \<times> jstring + nat) \<times> repo" where
  "post_commit msg tr ps rp =
     (if \<not> tr < length (trees rp) \<or> (\<exists>p \<in> set ps. \<not> p < length (commits rp))
      then (Inl unprocessable, rp)
      else (Inr (length (commits rp)),
            rp\<lparr>commits := commits rp @ [\<lparr>c_message = msg, c_tree = tr, c_parents = ps\<rparr>]\<rparr>))"

text \<open>\<open>PATCH /repos/o/r/git/refs/heads/b\<close>: the branch moves to the commit.\<close>

definition patch_ref :: "jstring \<Rightarrow> nat \<Rightarrow> repo \<Rightarrow> (nat \<times> jstring + unit) \<times> repo" where
  "patch_ref branch sha rp =
     (if refs rp branch = None \<or> \<not> sha < length (commits rp) then (Inl unprocessable, rp)
      else (Inr (), rp\<lparr>refs := (refs rp)(branch \<mapsto> sha)\<rparr>))"

text \<open>\<open>GET /repos/o/r/contents/path?ref=b\<close>.\<close>

definition get_contents :: "jstring \<Rightarrow> jstring \<Rightarrow> repo \<Rightarrow> (nat \<times> jstring + payload) \<times> repo" where
  "get_contents p branch rp =
     (case files rp (p, branch) of None \<Rightarrow> (Inl not_found, rp) | Some c \<Rightarrow> (Inr c, rp))"

text \<open>\<open>POST /repos/o/r/pulls\<close> and \<open>POST /repos/o/r/issues\<close>: the page of the new item.\<close>

definition post_pull :: "jstring \<Rightarrow> jstring \<Rightarrow> jstring \<Rightarrow> jstring \<Rightarrow> jstring \<Rightarrow> jstring
    \<Rightarrow> github \<Rightarrow> (nat \<times> jstring + jstring) \<times> github" where
  "post_pull owner rname title body head base g =
     (case repos g (owner, rname) of
        None \<Rightarrow> (Inl not_found, g)
      | Some rp \<Rightarrow>
          if refs rp head = None \<or> refs rp base = None then (Inl unprocessable, g)
          else (Inr (js ''https://github.com/'' @ owner @ js ''/'' @ rname @ js ''/pull/''
                  @ decimal (Suc (length (pulls g)))),
                g\<lparr>pulls := pulls g @ [(owner, rname, title, body, head, base)]\<rparr>))"

definition post_issue :: "jstring \<Rightarrow> jstring \<Rightarrow> jstring \<Rightarrow> jstring \<Rightarrow> jstring list
    \<Rightarrow> github \<Rightarrow> (nat \<times> jstring + jstring) \<times> github" where
  "post_issue owner rname title body labels g =
     (case repos g (owner, rname) of
        None \<Rightarrow> (Inl not_found, g)
      | Some rp \<Rightarrow>
          (Inr (js ''https://github.com/'' @ owner @ js ''/'' @ rname @ js ''/issues/''
                  @ decimal (Suc (length (issues g)))),
           g\<lparr>issues := issues g @ [(owner, rname, title, body, labels)]\<rparr>))"

section \<open>\<open>GitHubClient\<close>\<close>

text \<open>
  The private \<open>fetch\<close>: the request is sent; a response that is not ok is thrown as an
  Error with the status and the text, and a request that does not get through is the
  rejection of the platform's \<open>fetch\<close>. The endpoint stands for the URL, the method and the
  body of the source.
\<close>

definition fetch :: "(github \<Rightarrow> (nat \<times> jstring + 'a) \<times> github) \<Rightarrow> github \<Rightarrow> (exn + 'a) \<times> github" where
  "fetch endpoint g =
     (let g1 = g\<lparr>requests := Suc (requests g)\<rparr>
      in case faults g (requests g) of
           Some NetworkFault \<Rightarrow> (Inl (TypeError (js ''fetch failed'')), g1)
         | Some (HttpFault st txt) \<Rightarrow>
             (Inl (Error (js ''GitHub API error: '' @ decimal st @ js '' '' @ txt)), g1)
         | None \<Rightarrow>
             (case endpoint g1 of
                (Inl (st, txt), g2) \<Rightarrow>
                  (Inl (Error (js ''GitHub API error: '' @ decimal st @ js '' '' @ txt)), g2)
              | (Inr v, g2) \<Rightarrow> (Inr v, g2)))"

text \<open>\<open>createBranch\<close>: a new branch from main.\<close>

definition createBranch :: "jstring \<Rightarrow> jstring \<Rightarrow> jstring \<Rightarrow> github \<Rightarrow> (exn + nat) \<times> github" where
  "createBranch owner rname branchName g =
     (case fetch (on_repo owner rname (get_ref (js ''main''))) g of
        (Inl e, g1) \<Rightarrow> (Inl e, g1)
      | (Inr mainSha, g1) \<Rightarrow>
          (case fetch (on_repo owner rname (post_ref branchName mainSha)) g1 of
             (Inl e, g2) \<Rightarrow> (Inl e, g2)
           | (Inr u, g2) \<Rightarrow> (Inr mainSha, g2)))"

text \<open>The loop of \<open>createCommit\<close> over the files: a blob for each, and its tree entry.\<close>

fun create_blobs :: "jstring \<Rightarrow> jstring \<Rightarrow> GitHubFile list \<Rightarrow> tree_entry list \<Rightarrow> github
    \<Rightarrow> (exn + tree_entry list) \<times> github" where
  "create_blobs owner rname [] tree g = (Inr tree, g)"
| "create_blobs owner rname (file # fs) tree g =
     (case fetch (on_repo owner rname (post_blob (content file))) g of
        (Inl e, g1) \<Rightarrow> (Inl e, g1)
      | (Inr sha, g1) \<Rightarrow>
          create_blobs owner rname fs
            (tree @ [\<lparr>e_path = path file, e_mode = js ''100644'', e_type = js ''blob'',
                      e_sha = sha\<rparr>]) g1)"

text \<open>\<open>createCommit\<close>: one commit with all the files, then the branch moved to it.\<close>

definition createCommit :: "jstring \<Rightarrow> jstring \<Rightarrow> jstring \<Rightarrow> jstring \<Rightarrow> GitHubFile list \<Rightarrow> github
    \<Rightarrow> (exn + nat) \<times> github" where
  "createCommit owner rname branch msg fs g =
     (case fetch (on_repo owner rname (get_ref branch)) g of
        (Inl e, g1) \<Rightarrow> (Inl e, g1)
      | (Inr baseSha, g1) \<Rightarrow>
     (case fetch (on_repo owner rname (get_commit baseSha)) g1 of
        (Inl e, g2) \<Rightarrow> (Inl e, g2)
      | (Inr baseTreeSha, g2) \<Rightarrow>
     (case create_blobs owner rname fs [] g2 of
        (Inl e, g3) \<Rightarrow> (Inl e, g3)
      | (Inr tree, g3) \<Rightarrow>
     (case fetch (on_repo owner rname (post_tree baseTreeSha tree)) g3 of
        (Inl e, g4) \<Rightarrow> (Inl e, g4)
      | (Inr newTree, g4) \<Rightarrow>
     (case fetch (on_repo owner rname (post_commit msg newTree [baseSha])) g4 of
        (Inl e, g5) \<Rightarrow> (Inl e, g5)
      | (Inr commit, g5) \<Rightarrow>
     (case fetch (on_repo owner rname (patch_ref branch commit)) g5 of
        (Inl e, g6) \<Rightarrow> (Inl e, g6)
      | (Inr u, g6) \<Rightarrow> (Inr commit, g6)))))))"

text \<open>\<open>createPR\<close> and \<open>createIssue\<close>: the page of the new item.\<close>

definition createPR :: "jstring \<Rightarrow> jstring \<Rightarrow> jstring \<Rightarrow> jstring \<Rightarrow> jstring \<Rightarrow> jstring \<Rightarrow> github
    \<Rightarrow> (exn + jstring) \<times> github" where
  "createPR owner rname title body head base g =
     fetch (post_pull owner rname title body head base) g"

definition createIssue :: "jstring \<Rightarrow> jstring \<Rightarrow> jstring \<Rightarrow> jstring \<Rightarrow> jstring list \<Rightarrow> github
    \<Rightarrow> (exn + jstring) \<times> github" where
  "createIssue owner rname title body labels g =
     fetch (post_issue owner rname title body labels) g"

text \<open>
  \<open>getFile\<close>: the decoded content, and the empty string when there is none or when
  anything is thrown on the way. It never throws.
\<close>

definition getFile :: "jstring \<Rightarrow> jstring \<Rightarrow> jstring \<Rightarrow> jstring \<Rightarrow> github \<Rightarrow> jstring \<times> github" where
  "getFile owner rname p branch g =
     (case fetch (on_repo owner rname (get_contents p branch)) g of
        (Inl e, g1) \<Rightarrow> ([], g1)
      | (Inr NoContent, g1) \<Rightarrow> ([], g1)
      | (Inr (Decoded s), g1) \<Rightarrow> (s, g1)
      | (Inr Undecodable, g1) \<Rightarrow> ([], g1))"

text \<open>\<open>branchExists\<close>: whether the reference can be fetched.\<close>

definition branchExists :: "jstring \<Rightarrow> jstring \<Rightarrow> jstring \<Rightarrow> github \<Rightarrow> bool \<times> github" where
  "branchExists owner rname branch g =
     (case fetch (on_repo owner rname (get_ref branch)) g of
        (Inl e, g1) \<Rightarrow> (False, g1)
      | (Inr sha, g1) \<Rightarrow> (True, g1))"

section \<open>The collaborators of the agent and of the coordinator\<close>

text \<open>
  \<open>TeamAgent\<close> is given its two clients, and the coordinator hands the same clients to
  every agent. What the services behind them answer is outside the repository, so the
  pipeline is modelled against clients that can answer anything: a world records every
  call made, in order, and says what each call returns or throws, given the call and the
  number of calls made before it. The clock and the rendering of a number with a fixed
  count of decimals (\<open>toFixed\<close>) belong to the world as well.
\<close>

datatype call =
    GetFile jstring jstring jstring jstring
  | Query jstring
  | CreateIssue jstring jstring jstring jstring "jstring list"
  | BranchExists jstring jstring jstring
  | CreateBranch jstring jstring jstring
  | CreateCommit jstring jstring jstring jstring "GitHubFile list"
  | CreatePR jstring jstring jstring jstring jstring jstring
  | LoadTeamDocs jstring
  | GetStats
  | SlackPost jstring jstring

record world =
  calls :: "call list"
  text_reply :: "nat \<Rightarrow> call \<Rightarrow> exn + jstring"
  flag_reply :: "nat \<Rightarrow> call \<Rightarrow> exn + bool"
  unit_reply :: "nat \<Rightarrow> call \<Rightarrow> exn option"
  stats_reply :: "nat \<Rightarrow> exn + rat \<times> rat"
  clock :: "nat \<Rightarrow> jstring"
  toFixed :: "nat \<Rightarrow> rat \<Rightarrow> jstring"
  warnings :: "jstring list"

definition ask_text :: "call \<Rightarrow> world \<Rightarrow> (exn + jstring) \<times> world" where
  "ask_text c w = (text_reply w (length (calls w)) c, w\<lparr>calls := calls w @ [c]\<rparr>)"

definition ask_flag :: "call \<Rightarrow> world \<Rightarrow> (exn + bool) \<times> world" where
  "ask_flag c w = (flag_reply w (length (calls w)) c, w\<lparr>calls := calls w @ [c]\<rparr>)"

definition ask_unit :: "call \<Rightarrow> world \<Rightarrow> exn option \<times> world" where
  "ask_unit c w = (unit_reply w (length (calls w)) c, w\<lparr>calls := calls w @ [c]\<rparr>)"

definition ask_stats :: "world \<Rightarrow> (exn + rat \<times> rat) \<times> world" where
  "ask_stats w = (stats_reply w (length (calls w)), w\<lparr>calls := calls w @ [GetStats]\<rparr>)"

text \<open>\<open>console.warn\<close>, \<open>new Date().toISOString()\<close> and its \<open>split('T')[0]\<close>.\<close>

definition console_warn :: "jstring \<Rightarrow> world \<Rightarrow> world" where
  "console_warn msg w = w\<lparr>warnings := warnings w @ [msg]\<rparr>"

definition now :: "world \<Rightarrow> jstring" where
  "now w = clock w (length (calls w))"

definition today :: "world \<Rightarrow> jstring" where
  "today w = takeWhile (\<lambda>c. c \<noteq> 84) (now w)"

section \<open>\<open>TeamAgent\<close>\<close>

record TeamConfig =
  name :: jstring
  displayName :: jstring
  repoPath :: jstring
  docsPath :: jstring
  qaAnswerMarker :: jstring

record AgentResult =
  team :: jstring
  success :: bool
  questionsAnswered :: nat
  answersReviewed :: nat
  docsUpdated :: "jstring list"
  mcpUpdatesProcessed :: nat
  actionPlanUpdated :: bool
  readmeUpdated :: bool
  commitSha :: "jstring option"
  errors :: "jstring list"
  costEstimate :: rat

text \<open>
  The state of an agent: its team, its result and the map of its file changes. A
  JavaScript \<open>Map\<close> keeps its keys in the order of their first insertion; \<open>set\<close> on a
  key that is there replaces the value in place.
\<close>

record agent =
  agent_team :: TeamConfig
  result :: AgentResult
  fileChanges :: "(jstring \<times> jstring) list"

fun map_set :: "jstring \<Rightarrow> jstring \<Rightarrow> (jstring \<times> jstring) list \<Rightarrow> (jstring \<times> jstring) list" where
  "map_set k v [] = [(k, v)]"
| "map_set k v ((k', v') # m) = (if k' = k then (k, v) # m else (k', v') # map_set k v m)"

definition new_agent :: "TeamConfig \<Rightarrow> agent" where
  "new_agent t =
     \<lparr>agent_team = t,
      result = \<lparr>team = name t, success = False, questionsAnswered = 0, answersReviewed = 0,
        docsUpdated = [], mcpUpdatesProcessed = 0, actionPlanUpdated = False,
        readmeUpdated = False, commitSha = None, errors = [], costEstimate = 0\<rparr>,
      fileChanges = []\<rparr>"

definition getFileChanges :: "agent \<Rightarrow> GitHubFile list" where
  "getFileChanges a = map (\<lambda>(p, c). \<lparr>path = p, content = c\<rparr>) (fileChanges a)"

text \<open>The updates of the result that the phases make.\<close>

definition push_error :: "jstring \<Rightarrow> agent \<Rightarrow> agent" where
  "push_error msg a = a\<lparr>result := (result a)\<lparr>errors := errors (result a) @ [msg]\<rparr>\<rparr>"

definition push_doc :: "jstring \<Rightarrow> agent \<Rightarrow> agent" where
  "push_doc p a = a\<lparr>result := (result a)\<lparr>docsUpdated := docsUpdated (result a) @ [p]\<rparr>\<rparr>"

definition add_cost :: "rat \<Rightarrow> agent \<Rightarrow> agent" where
  "add_cost c a = a\<lparr>result := (result a)\<lparr>costEstimate := costEstimate (result a) + c\<rparr>\<rparr>"

definition set_file :: "jstring \<Rightarrow> jstring \<Rightarrow> agent \<Rightarrow> agent" where
  "set_file p c a = a\<lparr>fileChanges := map_set p c (fileChanges a)\<rparr>"

text \<open>
  A template literal that starts with a line break and whose lines each end with one; an
  optional string in a template is its text, or \<open>undefined\<close>.
\<close>

definition text_lines :: "jstring list \<Rightarrow> jstring" where
  "text_lines ls = concat (map (\<lambda>l. l @ [10]) ls)"

definition template :: "jstring list \<Rightarrow> jstring" where
  "template ls = [10] @ text_lines ls"

definition show_opt :: "jstring option \<Rightarrow> jstring" where
  "show_opt v = (case v of None \<Rightarrow> js ''undefined'' | Some s \<Rightarrow> s)"

definition answer_prompt :: "TeamConfig \<Rightarrow> question \<Rightarrow> jstring" where
  "answer_prompt t q = template
     [js ''You are answering a question on behalf of the '' @ displayName t @ js '' team.'',
      [],
      js ''Question: '' @ questionTitle q,
      js ''Details: '' @ show_opt (questionBody q),
      js ''Context: '' @ (if truthy (qcontext q) then show_opt (qcontext q) else js ''None provided''),
      [],
      js ''Provide a clear, technical answer based on the team'' @ [39]
        @ js ''s documentation and current architecture.'',
      js ''If you cannot answer with confidence, explain what information is missing or what assumptions would be needed.'']"

definition review_prompt :: "TeamConfig \<Rightarrow> question \<Rightarrow> jstring" where
  "review_prompt t q = template
     [js ''The '' @ displayName t @ js '' team asked this question:'',
      js ''Question: '' @ questionTitle q,
      js ''Details: '' @ show_opt (questionBody q),
      [],
      js ''The answer received was:'',
      show_opt (answerBody q),
      [],
      js ''Task: Extract specific, actionable changes that should be made to '' @ displayName t
        @ [39] @ js ''s documentation, architecture, or implementation based on this answer.'',
      [],
      js ''Return a structured list of:'',
      js ''1. Which documentation file should be updated (e.g., TEAM-LEADER-SUMMARY.md, ROADMAP.md, CLAUDE.md)'',
      js ''2. What specific information should be added or changed'',
      js ''3. Why this change is important'',
      [],
      js ''If no documentation updates are needed, explain why.'']"

definition mcp_prompt :: "TeamConfig \<Rightarrow> jstring" where
  "mcp_prompt t = template
     [js ''Check the MCP developer guides for any updates, new sections, or proposals that are relevant to the ''
        @ displayName t @ js '' team.'',
      [],
      js ''Focus on:'',
      js ''- Architecture patterns the team uses (Cloudflare Workers, D1, Durable Objects, KV, R2)'',
      js ''- Integration patterns (OAuth, webhooks, API design)'',
      js ''- Security patterns (encryption, validation)'',
      js ''- Any ecosystem-wide patterns (Tier 1/2, Q&A system, etc.)'',
      [],
      js ''Return a list of relevant updates with:'',
      js ''1. Guide ID and section'',
      js ''2. Type of change (new, updated, deprecated)'',
      js ''3. Brief summary'',
      js ''4. Relevance score (0-1) indicating how important this is for '' @ displayName t]"

definition plan_prompt :: "TeamConfig \<Rightarrow> jstring" where
  "plan_prompt t = template
     [js ''Generate an action plan for the '' @ displayName t @ js '' team'' @ [39]
        @ js ''s next work session.'',
      [],
      js ''Context:'',
      js ''- Review the team'' @ [39] @ js ''s current roadmap and status'',
      js ''- Consider open questions on Q&A board'',
      js ''- Consider recent answers received'',
      js ''- Consider MCP updates that need to be applied'',
      [],
      js ''Return a structured action plan in this format:'',
      [],
      js ''# Action Plan for Next Session'',
      [],
      js ''## High Priority'',
      js ''- [ ] Task description (blockedBy: Q-XXX if blocked)'',
      [],
      js ''## Medium Priority'',
      js ''- [ ] Task description'',
      [],
      js ''## Low Priority / Future'',
      js ''- [ ] Task description'',
      [],
      js ''Use phases and steps, NOT timelines. Focus on what needs to be done next, dependencies, and blockers.'']"

definition readme_prompt :: "TeamConfig \<Rightarrow> jstring" where
  "readme_prompt t = template
     [js ''Review the '' @ displayName t @ js '' README.md to check if it'' @ [39]
        @ js ''s up to date with:'',
      js ''- Current project status'',
      js ''- Recent features implemented'',
      js ''- Integration points with other teams (Nexus, DE, Mnemo)'',
      js ''- Quick start / setup instructions'',
      [],
      js ''If updates are needed, suggest specific changes. If README is current, say '' @ [34]
        @ js ''No updates needed'' @ [34] @ js ''.'']"

definition qaPath :: jstring where
  "qaPath = js ''docs/CROSS-TEAM-QA-BOARD.md''"

definition insightsPath :: jstring where
  "insightsPath = js ''docs/QA-INSIGHTS.md''"

definition mcpPath :: jstring where
  "mcpPath = js ''docs/MCP-UPDATES.md''"

text \<open>\<open>loadQABoard\<close>: what \<open>getFile\<close> throws is thrown again with a message of its own.\<close>

definition loadQABoard :: "world \<Rightarrow> (exn + jstring) \<times> world" where
  "loadQABoard w =
     (case ask_text (GetFile (js ''CyberBrown'') (js ''nexus'') qaPath (js ''main'')) w of
        (Inl e, w1) \<Rightarrow> (Inl (Error (js ''Failed to load Q&A board: '' @ to_string e)), w1)
      | (Inr s, w1) \<Rightarrow> (Inr s, w1))"

text \<open>
  \<open>updateQABoard\<close>: the ledger is loaded anew, changed and put into the file changes.
  The methods of the agent return what they throw, if anything, and the new state.
\<close>

definition updateQABoard :: "jstring \<Rightarrow> jstring \<Rightarrow> agent \<Rightarrow> world \<Rightarrow> exn option \<times> agent \<times> world" where
  "updateQABoard questionId answer a w =
     (case loadQABoard w of
        (Inl e, w1) \<Rightarrow> (Some e, a, w1)
      | (Inr text, w1) \<Rightarrow>
          (None,
           push_doc qaPath
             (set_file qaPath
                (updateQABoard_text text questionId answer (today w1)
                   (displayName (agent_team a))) a),
           w1))"

text \<open>
  \<open>applyInsightsToDocumentation\<close> and \<open>applyMCPUpdatesToDocumentation\<close>: an entry is
  added to what the file holds, or to a header when \<open>getFile\<close> throws.
\<close>

definition applyInsightsToDocumentation :: "jstring \<Rightarrow> jstring \<Rightarrow> agent \<Rightarrow> world \<Rightarrow> agent \<times> world" where
  "applyInsightsToDocumentation questionId insights a w =
     (let entry = [10] @ js ''## ['' @ questionId @ js ''] - '' @ today w @ [10, 10] @ insights
            @ [10, 10] @ js ''---'' @ [10]
      in case ask_text (GetFile (js ''CyberBrown'') (name (agent_team a)) insightsPath (js ''main'')) w of
           (Inl e, w1) \<Rightarrow>
             (push_doc insightsPath
                (set_file insightsPath
                   ((js ''# Q&A Insights for '' @ displayName (agent_team a) @ [10, 10]
                     @ js ''This file tracks actionable insights from Q&A board answers.''
                     @ [10, 10] @ js ''---'' @ [10]) @ entry) a), w1)
         | (Inr existing, w1) \<Rightarrow>
             (push_doc insightsPath (set_file insightsPath (existing @ entry) a), w1))"

definition applyMCPUpdatesToDocumentation :: "jstring \<Rightarrow> agent \<Rightarrow> world \<Rightarrow> agent \<times> world" where
  "applyMCPUpdatesToDocumentation updates a w =
     (let entry = [10] @ js ''## Updates Checked: '' @ today w @ [10, 10] @ updates
            @ [10, 10] @ js ''---'' @ [10]
      in case ask_text (GetFile (js ''CyberBrown'') (name (agent_team a)) mcpPath (js ''main'')) w of
           (Inl e, w1) \<Rightarrow>
             (push_doc mcpPath
                (set_file mcpPath
                   ((js ''# MCP Developer Guide Updates for '' @ displayName (agent_team a)
                     @ [10, 10] @ js ''This file tracks relevant MCP updates.''
                     @ [10, 10] @ js ''---'' @ [10]) @ entry) a), w1)
         | (Inr existing, w1) \<Rightarrow>
             (push_doc mcpPath (set_file mcpPath (existing @ entry) a), w1))"

text \<open>The body of the loop of \<open>answerQuestions\<close>: one question, in its own try.\<close>

definition answer_question :: "question \<Rightarrow> agent \<times> world \<Rightarrow> agent \<times> world" where
  "answer_question q s =
     (case s of (a, w) \<Rightarrow>
        (case ask_text (Query (answer_prompt (agent_team a) q)) w of
           (Inl e, w1) \<Rightarrow>
             (push_error (js ''Failed to answer '' @ qid q @ js '': '' @ to_string e) a, w1)
         | (Inr answer, w1) \<Rightarrow>
             (case updateQABoard (qid q) answer a w1 of
                (Some e, a2, w2) \<Rightarrow>
                  (push_error (js ''Failed to answer '' @ qid q @ js '': '' @ to_string e) a2, w2)
              | (None, a2, w2) \<Rightarrow>
                  (add_cost (1 / 50)
                     (a2\<lparr>result := (result a2)\<lparr>questionsAnswered :=
                        Suc (questionsAnswered (result a2))\<rparr>\<rparr>), w2))))"

definition answerQuestions :: "agent \<Rightarrow> world \<Rightarrow> exn option \<times> agent \<times> world" where
  "answerQuestions a w =
     (case loadQABoard w of
        (Inl e, w1) \<Rightarrow> (Some e, a, w1)
      | (Inr qaBoard, w1) \<Rightarrow>
          (case parseQABoard qaBoard of
             Inl e \<Rightarrow> (Some e, a, w1)
           | Inr qs \<Rightarrow>
               (case foldl (\<lambda>s q. answer_question q s) (a, w1)
                  (filter (\<lambda>q. askedTo q = Some (name (agent_team a))
                       \<and> status q = Some (yellow @ js '' Open'')) qs) of
                  (a', w') \<Rightarrow> (None, a', w'))))"

text \<open>The body of the loop of \<open>reviewAnswers\<close>.\<close>

definition review_answer :: "question \<Rightarrow> agent \<times> world \<Rightarrow> agent \<times> world" where
  "review_answer q s =
     (case s of (a, w) \<Rightarrow>
        (case ask_text (Query (review_prompt (agent_team a) q)) w of
           (Inl e, w1) \<Rightarrow>
             (push_error (js ''Failed to process answer '' @ qid q @ js '': '' @ to_string e) a,
              w1)
         | (Inr insights, w1) \<Rightarrow>
             (case applyInsightsToDocumentation (qid q) insights a w1 of
                (a2, w2) \<Rightarrow>
                  (add_cost (1 / 50)
                     (a2\<lparr>result := (result a2)\<lparr>answersReviewed :=
                        Suc (answersReviewed (result a2))\<rparr>\<rparr>), w2))))"

definition reviewAnswers :: "agent \<Rightarrow> world \<Rightarrow> exn option \<times> agent \<times> world" where
  "reviewAnswers a w =
     (case loadQABoard w of
        (Inl e, w1) \<Rightarrow> (Some e, a, w1)
      | (Inr qaBoard, w1) \<Rightarrow>
          (case parseQABoard qaBoard of
             Inl e \<Rightarrow> (Some e, a, w1)
           | Inr qs \<Rightarrow>
               (case foldl (\<lambda>s q. review_answer q s) (a, w1)
                  (filter (\<lambda>q. askedBy q = Some (name (agent_team a))
                       \<and> status q = Some (green @ js '' Answered'')
                       \<and> truthy (answerBody q)) qs) of
                  (a', w') \<Rightarrow> (None, a', w'))))"

text \<open>The three phases of one query each; each catches what is thrown inside it.\<close>

definition checkMCPUpdates :: "agent \<Rightarrow> world \<Rightarrow> exn option \<times> agent \<times> world" where
  "checkMCPUpdates a w =
     (case ask_text (Query (mcp_prompt (agent_team a))) w of
        (Inl e, w1) \<Rightarrow>
          (None, push_error (js ''Failed to check MCP updates: '' @ to_string e) a, w1)
      | (Inr updates, w1) \<Rightarrow>
          if updates \<noteq> [] \<and> 10 < length updates then
            (case applyMCPUpdatesToDocumentation updates a w1 of
               (a2, w2) \<Rightarrow>
                 (None,
                  add_cost (3 / 100)
                    (a2\<lparr>result := (result a2)\<lparr>mcpUpdatesProcessed :=
                       Suc (mcpUpdatesProcessed (result a2))\<rparr>\<rparr>), w2))
          else (None, a, w1))"

definition updateActionPlan :: "agent \<Rightarrow> world \<Rightarrow> exn option \<times> agent \<times> world" where
  "updateActionPlan a w =
     (case ask_text (Query (plan_prompt (agent_team a))) w of
        (Inl e, w1) \<Rightarrow>
          (None, push_error (js ''Failed to update action plan: '' @ to_string e) a, w1)
      | (Inr plan, w1) \<Rightarrow>
          (None,
           add_cost (3 / 100)
             (push_doc (js ''docs/ACTION-PLAN.md'')
                (a\<lparr>result := (result a)\<lparr>actionPlanUpdated := True\<rparr>\<rparr>)), w1))"

definition includes_str :: "jstring \<Rightarrow> jstring \<Rightarrow> bool" where
  "includes_str s p = (indexOf s p \<noteq> None)"

definition updateReadme :: "agent \<Rightarrow> world \<Rightarrow> exn option \<times> agent \<times> world" where
  "updateReadme a w =
     (case ask_text (Query (readme_prompt (agent_team a))) w of
        (Inl e, w1) \<Rightarrow>
          (None, push_error (js ''Failed to review README: '' @ to_string e) a, w1)
      | (Inr review, w1) \<Rightarrow>
          (None,
           add_cost (1 / 50)
             (if \<not> includes_str (toLowerCase review) (js ''no updates needed'')
              then push_doc (js ''README.md'')
                     (a\<lparr>result := (result a)\<lparr>readmeUpdated := True\<rparr>\<rparr>)
              else a), w1))"

text \<open>
  \<open>execute\<close>: the five phases in order inside one try; what a phase throws ends the
  sequence and is recorded, and only the end of the sequence sets \<open>success\<close>.
\<close>

fun run_phases :: "(agent \<Rightarrow> world \<Rightarrow> exn option \<times> agent \<times> world) list \<Rightarrow> agent \<Rightarrow> world
    \<Rightarrow> exn option \<times> agent \<times> world" where
  "run_phases [] a w = (None, a, w)"
| "run_phases (p # ps) a w =
     (case p a w of
        (Some e, a1, w1) \<Rightarrow> (Some e, a1, w1)
      | (None, a1, w1) \<Rightarrow> run_phases ps a1 w1)"

definition phases :: "(agent \<Rightarrow> world \<Rightarrow> exn option \<times> agent \<times> world) list" where
  "phases = [answerQuestions, reviewAnswers, checkMCPUpdates, updateActionPlan, updateReadme]"

definition execute :: "agent \<Rightarrow> world \<Rightarrow> agent \<times> world" where
  "execute a w =
     (case run_phases phases a w of
        (None, a1, w1) \<Rightarrow> (a1\<lparr>result := (result a1)\<lparr>success := True\<rparr>\<rparr>, w1)
      | (Some e, a1, w1) \<Rightarrow> (push_error (message e) a1, w1))"

section \<open>The coordinator: \<open>handleScheduled\<close>\<close>

record Env =
  GITHUB_TOKEN :: "jstring option"
  RESEND_API_KEY :: "jstring option"
  SLACK_WEBHOOK_URL :: "jstring option"
  ENVIRONMENT :: jstring

definition TEAMS :: "TeamConfig list" where
  "TEAMS =
     [\<lparr>name = js ''nexus'', displayName = js ''Nexus'', repoPath = js ''/home/chris/nexus'',
       docsPath = js ''/home/chris/nexus/docs'',
       qaAnswerMarker = js ''_Waiting for Nexus response_''\<rparr>,
      \<lparr>name = js ''de'', displayName = js ''DE (Distributed Electrons)'',
       repoPath = js ''/home/chris/distributed-electrons'',
       docsPath = js ''/home/chris/distributed-electrons/docs'',
       qaAnswerMarker = js ''_Waiting for DE response_''\<rparr>,
      \<lparr>name = js ''mnemo'', displayName = js ''Mnemo'', repoPath = js ''/home/chris/mnemo'',
       docsPath = js ''/home/chris/mnemo/docs'',
       qaAnswerMarker = js ''_Waiting for Mnemo response_''\<rparr>]"

text \<open>\<open>Array.prototype.join\<close>, and how a template renders a Boolean.\<close>

fun join :: "jstring \<Rightarrow> jstring list \<Rightarrow> jstring" where
  "join sep [] = []"
| "join sep [x] = x"
| "join sep (x # y # r) = x @ sep @ join sep (y # r)"

definition show_bool :: "bool \<Rightarrow> jstring" where
  "show_bool b = (if b then js ''true'' else js ''false'')"

definition robot :: jstring where
  "robot = [55358, 56598]"

text \<open>
  \<open>createFailureIssue\<close>: an issue in the team's repository that lists the errors and the
  counters; when the issue cannot be created the reference is a fixed text.
\<close>

definition failure_title :: "TeamConfig \<Rightarrow> world \<Rightarrow> jstring" where
  "failure_title t w = js ''[Autonomous Agent] Failure for '' @ displayName t @ js '' - '' @ today w"

definition failure_body :: "TeamConfig \<Rightarrow> AgentResult \<Rightarrow> world \<Rightarrow> jstring" where
  "failure_body t r w = template
     [js ''## Agent Execution Failed'',
      [],
      js ''**Team**: '' @ displayName t,
      js ''**Timestamp**: '' @ now w,
      [],
      js ''### Errors'',
      [],
      join [10] (map (\<lambda>e. js ''- '' @ e) (errors r)),
      [],
      js ''### Partial Results'',
      [],
      js ''- Questions Answered: '' @ decimal (questionsAnswered r),
      js ''- Answers Reviewed: '' @ decimal (answersReviewed r),
      js ''- Docs Updated: ''
        @ (if join (js '', '') (docsUpdated r) = [] then js ''None''
           else join (js '', '') (docsUpdated r)),
      js ''- MCP Updates Processed: '' @ decimal (mcpUpdatesProcessed r),
      js ''- Action Plan Updated: '' @ (if actionPlanUpdated r then js ''Yes'' else js ''No''),
      js ''- README Updated: '' @ (if readmeUpdated r then js ''Yes'' else js ''No''),
      [],
      js ''### Next Steps'',
      [],
      js ''1. Review error messages above'',
      js ''2. Check if any manual intervention is needed'',
      js ''3. Fix underlying issues'',
      js ''4. Agent will retry on next scheduled run'',
      [],
      js ''---'',
      js ''*This issue was automatically created by the Ecosystem Agent*'']"

definition createFailureIssue :: "TeamConfig \<Rightarrow> AgentResult \<Rightarrow> world \<Rightarrow> jstring \<times> world" where
  "createFailureIssue t r w =
     (case ask_text (CreateIssue (js ''CyberBrown'') (name t) (failure_title t w)
             (failure_body t r w) [js ''autonomous-agent'', js ''failure'']) w of
        (Inl e, w1) \<Rightarrow> (js ''Failed to create issue'', w1)
      | (Inr url, w1) \<Rightarrow> (url, w1))"

text \<open>
  The loop of \<open>handleScheduled\<close> over the teams, with the three arrays it pushes to.
  \<open>execute\<close> and \<open>createFailureIssue\<close> catch what is thrown inside them, so nothing
  reaches the \<open>catch\<close> of the loop body, which would push a result of zero counts with the
  message and create no issue.
\<close>

fun process_teams :: "TeamConfig list \<Rightarrow> AgentResult list \<times> agent list \<times> jstring list \<times> world
    \<Rightarrow> AgentResult list \<times> agent list \<times> jstring list \<times> world" where
  "process_teams [] s = s"
| "process_teams (t # ts) (results, agents, issuesCreated, w) =
     (case execute (new_agent t) w of
        (a, w1) \<Rightarrow>
          if \<not> success (result a) \<and> 0 < length (errors (result a)) then
            (case createFailureIssue t (result a) w1 of
               (issueUrl, w2) \<Rightarrow>
                 process_teams ts
                   (results @ [result a], agents @ [a], issuesCreated @ [issueUrl], w2))
          else process_teams ts (results @ [result a], agents @ [a], issuesCreated, w1))"

text \<open>\<open>createPullRequest\<close>: a commit for every successful team that updated documents.\<close>

definition commit_message :: "TeamConfig \<Rightarrow> AgentResult \<Rightarrow> world \<Rightarrow> jstring" where
  "commit_message t r w = text_lines
     [js ''[Autonomous Agent] '' @ displayName t @ js '' updates'',
      [],
      js ''- Questions answered: '' @ decimal (questionsAnswered r),
      js ''- Answers reviewed: '' @ decimal (answersReviewed r),
      js ''- Docs updated: '' @ join (js '', '') (docsUpdated r),
      js ''- MCP updates processed: '' @ decimal (mcpUpdatesProcessed r),
      js ''- Action plan updated: '' @ show_bool (actionPlanUpdated r),
      js ''- README updated: '' @ show_bool (readmeUpdated r),
      [],
      robot @ js '' Generated with Autonomous Agent'',
      js ''Generated at: '' @ now w]"

definition commit_team :: "TeamConfig list \<Rightarrow> agent list \<Rightarrow> jstring \<Rightarrow> AgentResult \<Rightarrow> world \<Rightarrow> world" where
  "commit_team teams agents branchName r w =
     (case find (\<lambda>t. name t = team r) teams of
        None \<Rightarrow> w
      | Some t \<Rightarrow>
     (case find (\<lambda>a. name (agent_team a) = team r) agents of
        None \<Rightarrow> w
      | Some a \<Rightarrow>
     (case ask_flag (BranchExists (js ''CyberBrown'') (name t) branchName) w of
        (Inl e, w1) \<Rightarrow> w1
      | (Inr exists, w1) \<Rightarrow>
     (case (if \<not> exists
            then (case ask_text (CreateBranch (js ''CyberBrown'') (name t) branchName) w1 of
                    (Inl e, w2) \<Rightarrow> (Some e, w2)
                  | (Inr sha, w2) \<Rightarrow> (None, w2))
            else (None, w1)) of
        (Some e, w2) \<Rightarrow> w2
      | (None, w2) \<Rightarrow>
          snd (ask_text (CreateCommit (js ''CyberBrown'') (name t) branchName
                 (commit_message t r w2) (getFileChanges a)) w2)))))"

definition pr_section :: "TeamConfig list \<Rightarrow> AgentResult \<Rightarrow> jstring" where
  "pr_section teams r = template
     [js ''### '' @ (case find (\<lambda>t. name t = team r) teams of
                       None \<Rightarrow> js ''undefined'' | Some t \<Rightarrow> displayName t),
      [],
      js ''- '' @ check_mark @ js '' Questions answered: '' @ decimal (questionsAnswered r),
      js ''- '' @ [55357, 56534] @ js '' Answers reviewed: '' @ decimal (answersReviewed r),
      js ''- '' @ [55357, 56541] @ js '' Docs updated: '' @ decimal (length (docsUpdated r))
        @ js '' files'',
      js ''- '' @ [55357, 56589] @ js '' MCP updates processed: ''
        @ decimal (mcpUpdatesProcessed r),
      js ''- '' @ [55357, 56523] @ js '' Action plan: ''
        @ (if actionPlanUpdated r then js ''Updated'' else js ''No changes''),
      js ''- '' @ [55357, 56516] @ js '' README: ''
        @ (if readmeUpdated r then js ''Updated'' else js ''No changes'')]"

text \<open>\<open>results.reduce((sum, r) => sum + r.costEstimate, 0)\<close>.\<close>

definition total_cost :: "AgentResult list \<Rightarrow> rat" where
  "total_cost results = foldl (\<lambda>sum r. sum + costEstimate r) 0 results"

definition pr_body :: "TeamConfig list \<Rightarrow> AgentResult list \<Rightarrow> AgentResult list \<Rightarrow> world \<Rightarrow> jstring" where
  "pr_body teams results successfulTeams w = template
     [js ''## Autonomous Agent Updates'',
      [],
      js ''This PR contains automated updates from the Ecosystem Agent'' @ [39]
        @ js ''s daily run.'',
      [],
      join [10] (map (pr_section teams) successfulTeams),
      [],
      js ''### Cost Summary'',
      [],
      js ''Total estimated cost: $'' @ toFixed w 4 (total_cost results),
      [],
      js ''---'',
      [],
      js ''**Review Process**: This PR will remain open for 30 days for human review. After 30 days of successful runs, the agent will begin committing directly to main.'',
      [],
      js ''**Questions?** Check the [Cross-Team Q&A Board](/home/chris/nexus/docs/CROSS-TEAM-QA-BOARD.md)'',
      [],
      js ''---'',
      robot @ js '' Generated by [Ecosystem Agent](https://github.com/CyberBrown/ecosystem-agent)'',
      js ''Generated at: '' @ now w]"

definition createPullRequest :: "TeamConfig list \<Rightarrow> AgentResult list \<Rightarrow> agent list \<Rightarrow> world
    \<Rightarrow> jstring option \<times> world" where
  "createPullRequest teams results agents w =
     (let branchName = js ''autonomous-agent/'' @ today w;
          successfulTeams = filter (\<lambda>r. success r \<and> 0 < length (docsUpdated r)) results
      in case successfulTeams of
           [] \<Rightarrow> (None, w)
         | r0 # rs \<Rightarrow>
             (let w1 = foldl (\<lambda>w r. commit_team teams agents branchName r w) w successfulTeams
              in case find (\<lambda>t. name t = team r0) teams of
                   None \<Rightarrow> (None, w1)
                 | Some firstTeam \<Rightarrow>
                     (case ask_text (CreatePR (js ''CyberBrown'') (name firstTeam)
                             (js ''[Autonomous Agent] Daily updates - '' @ today w1)
                             (pr_body teams results successfulTeams w1) branchName (js ''main''))
                           w1 of
                        (Inl e, w2) \<Rightarrow> (None, w2)
                      | (Inr prUrl, w2) \<Rightarrow> (Some prUrl, w2))))"

text \<open>
  \<open>sendCostAlert\<close>: a warning on the console, and a message to the webhook when one is
  configured; what the webhook throws is caught.
\<close>

definition sendCostAlert :: "Env \<Rightarrow> rat \<Rightarrow> world \<Rightarrow> world" where
  "sendCostAlert env totalCost w =
     (let w1 = console_warn ([9888, 65039] @ js ''  Cost threshold exceeded: $''
                  @ toFixed w 2 totalCost @ js '' > $50.00'') w
      in if truthy (SLACK_WEBHOOK_URL env) then
           snd (ask_unit (SlackPost (show_opt (SLACK_WEBHOOK_URL env))
                  ([55357, 57000] @ js '' Ecosystem Agent Cost Alert: $'' @ toFixed w1 2 totalCost
                     @ js '' (threshold: $50.00)'')) w1)
         else w1)"

record ExecutionSummary =
  timestamp :: jstring
  results :: "AgentResult list"
  totalCost :: rat
  prUrl :: "jstring option"
  issuesCreated :: "jstring list"

text \<open>
  \<open>handleScheduled\<close>, for a list of teams: the cache is loaded once, the teams are
  processed in order, the commits and the pull request are made, the cost is checked and
  the statistics are read. Nothing catches what \<open>getStats\<close> throws.
\<close>

definition loadCache :: "TeamConfig list \<Rightarrow> world \<Rightarrow> world" where
  "loadCache teams w =
     (case teams of [] \<Rightarrow> w | t0 # ts \<Rightarrow> snd (ask_unit (LoadTeamDocs (name t0)) w))"

definition handleScheduled_for :: "TeamConfig list \<Rightarrow> Env \<Rightarrow> world \<Rightarrow> (exn + ExecutionSummary) \<times> world" where
  "handleScheduled_for teams env w =
     (let w1 = loadCache teams w
      in case process_teams teams ([], [], [], w1) of
           (rs, agents, urls, w2) \<Rightarrow>
      (case createPullRequest teams rs agents w2 of
           (pr, w3) \<Rightarrow>
      (let w4 = (if 50 < total_cost rs then sendCostAlert env (total_cost rs) w3 else w3)
       in case ask_stats w4 of
            (Inl e, w5) \<Rightarrow> (Inl e, w5)
          | (Inr mnemoStats, w5) \<Rightarrow>
              (Inr \<lparr>timestamp = now w5, results = rs, totalCost = total_cost rs, prUrl = pr,
                     issuesCreated = urls\<rparr>, w5))))"

definition handleScheduled :: "Env \<Rightarrow> world \<Rightarrow> (exn + ExecutionSummary) \<times> world" where
  "handleScheduled env w = handleScheduled_for TEAMS env w"

section \<open>Properties of the parser\<close>


lemma split_lines_not_Nil: "split_lines s \<noteq> []"
  by (induction s) (auto split: list.splits)

lemma parse_block_Inr: "\<exists>q. parse_block block = Inr q"
  using split_lines_not_Nil [of "trim block"]
  by (auto simp: parse_block_def split: list.splits)

lemma parse_blocks_acc:
  "\<exists>qs. parse_blocks bs acc = Inr (acc @ qs)
     \<and> map Inr qs = filter (\<lambda>r. case r of Inl e \<Rightarrow> False | Inr q \<Rightarrow> complete q) (map parse_block bs)"
proof (induction bs arbitrary: acc)
  case Nil
  then show ?case by simp
next
  case (Cons b bs)
  obtain q where q: "parse_block b = Inr q"
    using parse_block_Inr by blast
  show ?case
  proof (cases "complete q")
    case True
    from Cons.IH [of "acc @ [q]"] obtain qs where
      "parse_blocks bs (acc @ [q]) = Inr ((acc @ [q]) @ qs)"
      "map Inr qs = filter (\<lambda>r. case r of Inl e \<Rightarrow> False | Inr q \<Rightarrow> complete q) (map parse_block bs)"
      by blast
    then show ?thesis using q True
      by (intro exI [of _ "q # qs"]) simp
  next
    case False
    from Cons.IH [of acc] obtain qs where
      "parse_blocks bs acc = Inr (acc @ qs)"
      "map Inr qs = filter (\<lambda>r. case r of Inl e \<Rightarrow> False | Inr q \<Rightarrow> complete q) (map parse_block bs)"
      by blast
    then show ?thesis using q False
      by (intro exI [of _ qs]) simp
  qed
qed











section \<open>Properties of the mutator\<close>

text \<open>The definitions that evaluate the string operations on a concrete input.\<close>

lemmas rx_eval = js_def arrow_def yellow_def green_def red_def check_mark_def
  is_space_def is_digit_def is_word_def not_newline_def any_unit_def
  groups_of_def substitution_def one_digit_def rx_replace_all_def rx_replace_def rx_match_def
  rx_split_def str_replace_def trim_def toLowerCase_def

text \<open>
  Two ledgers, of one and of two open questions that wait for an answer, and the text of a
  block once it is answered on 2025-12-05 by the team DE.
\<close>

definition ledger1 :: jstring where
  "ledger1 = js ''### [Q-1] T'' @ [10] @ js ''**Status**: '' @ yellow @ js '' Open'' @ [10]
     @ js ''**Answer**: _Waiting for DE response_'' @ [10]"

definition ledger2 :: jstring where
  "ledger2 = ledger1 @ js ''### [Q-2] U'' @ [10] @ js ''**Status**: '' @ yellow @ js '' Open'' @ [10]
     @ js ''**Answer**: _Waiting for DE response_'' @ [10]"

definition answered :: "jstring \<Rightarrow> jstring \<Rightarrow> jstring" where
  "answered hdr answer = hdr @ [10] @ js ''**Status**: '' @ green @ js '' Answered'' @ [10]
     @ js ''**Answer**: '' @ answer @ [10, 10] @ js ''**Answered**: 2025-12-05 by DE (Autonomous Agent)''
     @ [10]"

text \<open>
  On the one-block ledger and the answer \<open>X\<close> the mutator gives the answered block.
\<close>

lemma updateQABoard_text_scenario:
  "updateQABoard_text ledger1 (js ''Q-1'') (js ''X'') (js ''2025-12-05'') (js ''DE'')
     = answered (js ''### [Q-1] T'') (js ''X'')"
  by (simp add: updateQABoard_text_def answer_rx_def open_status_rx_def ledger1_def answered_def rx_eval)

text \<open>
  Claim C1. The mutator is to put the answer text on the Answer line of the block. With
  the answer \<open>print $1\<close> it does not: the answer stands in the replacement string, so
  \<open>$1\<close> is replaced by the first group of the match (the block from its header to
  \<open>**Answer**:\<close>), and the second replacement then rewrites the Status line inside that
  copy as well.
\<close>

theorem updateQABoard_text_dollar:
  "updateQABoard_text ledger1 (js ''Q-1'') (js ''print $1'') (js ''2025-12-05'') (js ''DE'')
     = answered (js ''### [Q-1] T'')
         (js ''print ### [Q-1] T'' @ [10] @ js ''**Status**: '' @ green @ js '' Answered'' @ [10]
            @ js ''**Answer**:'')
   \<and> updateQABoard_text ledger1 (js ''Q-1'') (js ''print $1'') (js ''2025-12-05'') (js ''DE'')
     \<noteq> answered (js ''### [Q-1] T'') (js ''print $1'')"
proof -
  have "updateQABoard_text ledger1 (js ''Q-1'') (js ''print $1'') (js ''2025-12-05'') (js ''DE'')
     = answered (js ''### [Q-1] T'')
         (js ''print ### [Q-1] T'' @ [10] @ js ''**Status**: '' @ green @ js '' Answered'' @ [10]
            @ js ''**Answer**:'')"
    by (simp add: updateQABoard_text_def answer_rx_def open_status_rx_def ledger1_def
        answered_def rx_eval)
  then show ?thesis
    by (simp add: answered_def js_def green_def)
qed

text \<open>
  Claim C2. A second application with the same id is to change nothing. On the two-block
  ledger the first application answers block Q-1; the second, finding no placeholder left
  in block Q-1, matches from the header of Q-1 across the block boundary to the placeholder
  and the Open status of block Q-2, and answers Q-2 with the answer to Q-1.
\<close>

theorem updateQABoard_text_twice:
  "updateQABoard_text ledger2 (js ''Q-1'') (js ''X'') (js ''2025-12-05'') (js ''DE'')
     = answered (js ''### [Q-1] T'') (js ''X'') @ drop (length ledger1) ledger2
   \<and> updateQABoard_text
       (updateQABoard_text ledger2 (js ''Q-1'') (js ''X'') (js ''2025-12-05'') (js ''DE''))
       (js ''Q-1'') (js ''X'') (js ''2025-12-05'') (js ''DE'')
     = answered (js ''### [Q-1] T'') (js ''X'') @ answered (js ''### [Q-2] U'') (js ''X'')
   \<and> updateQABoard_text
       (updateQABoard_text ledger2 (js ''Q-1'') (js ''X'') (js ''2025-12-05'') (js ''DE''))
       (js ''Q-1'') (js ''X'') (js ''2025-12-05'') (js ''DE'')
     \<noteq> updateQABoard_text ledger2 (js ''Q-1'') (js ''X'') (js ''2025-12-05'') (js ''DE'')"
proof -
  have once: "updateQABoard_text ledger2 (js ''Q-1'') (js ''X'') (js ''2025-12-05'') (js ''DE'')
     = answered (js ''### [Q-1] T'') (js ''X'') @ drop (length ledger1) ledger2"
    by (simp add: updateQABoard_text_def answer_rx_def open_status_rx_def ledger1_def
        ledger2_def answered_def rx_eval)
  have twice: "updateQABoard_text
       (answered (js ''### [Q-1] T'') (js ''X'') @ drop (length ledger1) ledger2)
       (js ''Q-1'') (js ''X'') (js ''2025-12-05'') (js ''DE'')
     = answered (js ''### [Q-1] T'') (js ''X'') @ answered (js ''### [Q-2] U'') (js ''X'')"
    by (simp add: updateQABoard_text_def answer_rx_def open_status_rx_def ledger1_def
        ledger2_def answered_def rx_eval)
  have "answered (js ''### [Q-1] T'') (js ''X'') @ answered (js ''### [Q-2] U'') (js ''X'')
     \<noteq> answered (js ''### [Q-1] T'') (js ''X'') @ drop (length ledger1) ledger2"
    by (simp add: ledger1_def ledger2_def answered_def js_def green_def yellow_def)
  with once twice show ?thesis
    by simp
qed


section \<open>Properties of \<open>createCommit\<close>\<close>

text \<open>The tree of a commit, and the paths at which two trees differ.\<close>

definition tree_of :: "repo \<Rightarrow> nat \<Rightarrow> tree option" where
  "tree_of rp sha =
     (if sha < length (commits rp) \<and> c_tree (commits rp ! sha) < length (trees rp)
      then Some (trees rp ! c_tree (commits rp ! sha)) else None)"

definition changed_paths :: "tree \<Rightarrow> tree \<Rightarrow> jstring set" where
  "changed_paths t t' = {p. t p \<noteq> t' p}"

text \<open>
  A repository grows when its branches stay where they are and its commits and trees are
  only added to.
\<close>

definition grows :: "repo \<Rightarrow> repo \<Rightarrow> bool" where
  "grows rp rp' = (refs rp' = refs rp \<and> (\<exists>cs. commits rp' = commits rp @ cs)
     \<and> (\<exists>ts. trees rp' = trees rp @ ts))"

definition grows_all :: "github \<Rightarrow> github \<Rightarrow> bool" where
  "grows_all g g' = (\<forall>key. case repos g key of
       None \<Rightarrow> repos g' key = None
     | Some rp \<Rightarrow> (\<exists>rp'. repos g' key = Some rp' \<and> grows rp rp'))"

lemma grows_refl [simp]: "grows rp rp"
  by (simp add: grows_def)

lemma grows_trans: "grows a b \<Longrightarrow> grows b c \<Longrightarrow> grows a c"
  by (auto simp: grows_def)

lemma grows_all_refl [simp]: "grows_all g g"
  by (auto simp: grows_all_def split: option.splits)

lemma grows_all_trans: "grows_all a b \<Longrightarrow> grows_all b c \<Longrightarrow> grows_all a c"
  unfolding grows_all_def
proof
  fix key
  assume ab: "\<forall>key. case repos a key of None \<Rightarrow> repos b key = None
       | Some rp \<Rightarrow> (\<exists>rp'. repos b key = Some rp' \<and> grows rp rp')"
    and bc: "\<forall>key. case repos b key of None \<Rightarrow> repos c key = None
       | Some rp \<Rightarrow> (\<exists>rp'. repos c key = Some rp' \<and> grows rp rp')"
  show "case repos a key of None \<Rightarrow> repos c key = None
       | Some rp \<Rightarrow> (\<exists>rp'. repos c key = Some rp' \<and> grows rp rp')"
  proof (cases "repos a key")
    case None
    with ab [rule_format, of key] bc [rule_format, of key] show ?thesis by simp
  next
    case (Some rp)
    with ab [rule_format, of key] obtain rp' where b: "repos b key = Some rp'" "grows rp rp'"
      by auto
    with bc [rule_format, of key] obtain rp'' where "repos c key = Some rp''" "grows rp' rp''"
      by auto
    with Some b show ?thesis by (auto intro: grows_trans)
  qed
qed

lemma grows_all_requests [simp]: "grows_all g (g\<lparr>requests := n\<rparr>)"
  by (auto simp: grows_all_def split: option.splits)

text \<open>What a fetch of an endpoint on a repository does.\<close>

lemma fetch_meta:
  assumes "fetch (on_repo ow rn f) g = (x, g')"
  shows "faults g' = faults g \<and> requests g' = Suc (requests g)"
  using assms
  by (auto simp: fetch_def on_repo_def Let_def split: option.splits fault.splits prod.splits sum.splits)

lemma fetch_Inr:
  assumes "fetch (on_repo ow rn f) g = (Inr v, g')"
  shows "faults g (requests g) = None \<and> (\<exists>rp rp'. repos g (ow, rn) = Some rp \<and> f rp = (Inr v, rp')
     \<and> g' = g\<lparr>requests := Suc (requests g), repos := (repos g)((ow, rn) \<mapsto> rp')\<rparr>)"
  using assms
  by (auto simp: fetch_def on_repo_def Let_def split: option.splits fault.splits prod.splits sum.splits)

lemma fetch_grows:
  assumes "fetch (on_repo ow rn f) g = (x, g')"
    and "\<And>rp y rp'. f rp = (y, rp') \<Longrightarrow> grows rp rp'"
  shows "grows_all g g'"
proof (cases "faults g (requests g)")
  case (Some a)
  with assms(1) have "g' = g\<lparr>requests := Suc (requests g)\<rparr>"
    by (auto simp: fetch_def Let_def split: fault.splits)
  then show ?thesis by simp
next
  case None
  show ?thesis
  proof (cases "repos g (ow, rn)")
    case n: None
    with None assms(1) have "g' = g\<lparr>requests := Suc (requests g)\<rparr>"
      by (auto simp: fetch_def on_repo_def Let_def split: prod.splits sum.splits)
    then show ?thesis by simp
  next
    case (Some rp)
    obtain y rp' where f: "f rp = (y, rp')" by (cases "f rp")
    with None Some assms(1)
    have g': "g' = g\<lparr>requests := Suc (requests g), repos := (repos g)((ow, rn) \<mapsto> rp')\<rparr>"
      by (auto simp: fetch_def on_repo_def Let_def split: prod.splits sum.splits)
    from assms(2) [OF f] have "grows rp rp'" .
    with Some g' show ?thesis
      by (auto simp: grows_all_def split: option.splits)
  qed
qed

lemma get_ref_grows: "get_ref b rp = (y, rp') \<Longrightarrow> grows rp rp'"
  by (auto simp: get_ref_def split: option.splits)

lemma get_commit_grows: "get_commit s rp = (y, rp') \<Longrightarrow> grows rp rp'"
  by (auto simp: get_commit_def split: if_splits)

lemma post_blob_grows: "post_blob c rp = (y, rp') \<Longrightarrow> grows rp rp'"
  by (auto simp: post_blob_def grows_def split: option.splits)

lemma post_tree_grows: "post_tree b es rp = (y, rp') \<Longrightarrow> grows rp rp'"
  by (auto simp: post_tree_def grows_def split: if_splits)

lemma post_commit_grows: "post_commit m t ps rp = (y, rp') \<Longrightarrow> grows rp rp'"
  by (auto simp: post_commit_def grows_def split: if_splits)

lemma patch_ref_Inl_grows: "patch_ref b s rp = (Inl e, rp') \<Longrightarrow> grows rp rp'"
  by (auto simp: patch_ref_def split: if_splits)

lemma create_blobs_grows:
  "create_blobs ow rn fs tree g = (x, g') \<Longrightarrow> grows_all g g'"
proof (induction fs arbitrary: tree g)
  case Nil
  then show ?case by simp
next
  case (Cons f0 fs)
  obtain y g1 where f: "fetch (on_repo ow rn (post_blob (content f0))) g = (y, g1)"
    by (cases "fetch (on_repo ow rn (post_blob (content f0))) g")
  then have g1: "grows_all g g1"
    by (rule fetch_grows) (rule post_blob_grows)
  show ?case
  proof (cases y)
    case (Inl e)
    with Cons.prems f g1 show ?thesis by simp
  next
    case (Inr sha)
    with Cons.prems f have "create_blobs ow rn fs
            (tree @ [\<lparr>e_path = path f0, e_mode = js ''100644'', e_type = js ''blob'',
                      e_sha = sha\<rparr>]) g1 = (x, g')"
      by simp
    from Cons.IH [OF this] g1 show ?thesis
      by (rule grows_all_trans [rotated])
  qed
qed


lemma fetch_Inl_grows:
  assumes "fetch (on_repo ow rn f) g = (Inl e, g')"
    and "\<And>rp d rp'. f rp = (Inl d, rp') \<Longrightarrow> grows rp rp'"
  shows "grows_all g g'"
proof (cases "faults g (requests g)")
  case (Some a)
  with assms(1) have "g' = g\<lparr>requests := Suc (requests g)\<rparr>"
    by (auto simp: fetch_def Let_def split: fault.splits)
  then show ?thesis by simp
next
  case None
  show ?thesis
  proof (cases "repos g (ow, rn)")
    case n: None
    with None assms(1) have "g' = g\<lparr>requests := Suc (requests g)\<rparr>"
      by (auto simp: fetch_def on_repo_def Let_def split: prod.splits sum.splits)
    then show ?thesis by simp
  next
    case (Some rp)
    obtain y rp' where f: "f rp = (y, rp')" by (cases "f rp")
    with None Some assms(1)
    have g': "g' = g\<lparr>requests := Suc (requests g), repos := (repos g)((ow, rn) \<mapsto> rp')\<rparr>"
      and "\<exists>d. y = Inl d"
      by (auto simp: fetch_def on_repo_def Let_def split: prod.splits sum.splits)
    with f assms(2) have "grows rp rp'" by blast
    with Some g' show ?thesis
      by (auto simp: grows_all_def split: option.splits)
  qed
qed

lemma createCommit_Inl_grows:
  assumes "createCommit ow rn branch msg fs g = (Inl e, g')"
  shows "grows_all g g'"
proof -
  obtain x1 g1 where s1: "fetch (on_repo ow rn (get_ref branch)) g = (x1, g1)"
    by (cases "fetch (on_repo ow rn (get_ref branch)) g")
  have r1: "grows_all g g1" using s1 by (rule fetch_grows) (rule get_ref_grows)
  show ?thesis
  proof (cases x1)
    case (Inl a)
    with assms s1 r1 show ?thesis by (simp add: createCommit_def)
  next
    case i1: (Inr baseSha)
    obtain x2 g2 where s2: "fetch (on_repo ow rn (get_commit baseSha)) g1 = (x2, g2)"
      by (cases "fetch (on_repo ow rn (get_commit baseSha)) g1")
    have r2: "grows_all g g2"
      using r1 fetch_grows [OF s2 get_commit_grows] by (rule grows_all_trans)
    show ?thesis
    proof (cases x2)
      case (Inl a)
      with assms s1 i1 s2 r2 show ?thesis by (simp add: createCommit_def)
    next
      case i2: (Inr baseTreeSha)
      obtain x3 g3 where s3: "create_blobs ow rn fs [] g2 = (x3, g3)"
        by (cases "create_blobs ow rn fs [] g2")
      have r3: "grows_all g g3"
        using r2 create_blobs_grows [OF s3] by (rule grows_all_trans)
      show ?thesis
      proof (cases x3)
        case (Inl a)
        with assms s1 i1 s2 i2 s3 r3 show ?thesis by (simp add: createCommit_def)
      next
        case i3: (Inr tree)
        obtain x4 g4 where s4: "fetch (on_repo ow rn (post_tree baseTreeSha tree)) g3 = (x4, g4)"
          by (cases "fetch (on_repo ow rn (post_tree baseTreeSha tree)) g3")
        have r4: "grows_all g g4"
          using r3 fetch_grows [OF s4 post_tree_grows] by (rule grows_all_trans)
        show ?thesis
        proof (cases x4)
          case (Inl a)
          with assms s1 i1 s2 i2 s3 i3 s4 r4 show ?thesis by (simp add: createCommit_def)
        next
          case i4: (Inr newTree)
          obtain x5 g5 where
            s5: "fetch (on_repo ow rn (post_commit msg newTree [baseSha])) g4 = (x5, g5)"
            by (cases "fetch (on_repo ow rn (post_commit msg newTree [baseSha])) g4")
          have r5: "grows_all g g5"
            using r4 fetch_grows [OF s5 post_commit_grows] by (rule grows_all_trans)
          show ?thesis
          proof (cases x5)
            case (Inl a)
            with assms s1 i1 s2 i2 s3 i3 s4 i4 s5 r5 show ?thesis by (simp add: createCommit_def)
          next
            case i5: (Inr commit)
            obtain x6 g6 where
              s6: "fetch (on_repo ow rn (patch_ref branch commit)) g5 = (x6, g6)"
              by (cases "fetch (on_repo ow rn (patch_ref branch commit)) g5")
            show ?thesis
            proof (cases x6)
              case (Inl a)
              with s6 have "grows_all g5 g6"
                by (auto intro: fetch_Inl_grows patch_ref_Inl_grows)
              with r5 have "grows_all g g6" by (rule grows_all_trans)
              with assms s1 i1 s2 i2 s3 i3 s4 i4 s5 i5 s6 Inl show ?thesis
                by (simp add: createCommit_def)
            next
              case (Inr u)
              with assms s1 i1 s2 i2 s3 i3 s4 i4 s5 i5 s6 show ?thesis
                by (simp add: createCommit_def)
            qed
          qed
        qed
      qed
    qed
  qed
qed

lemma index_of_Some: "index_of x ys = Some i \<Longrightarrow> i < length ys \<and> ys ! i = x"
  by (induction ys arbitrary: i) (auto split: if_splits)

lemma post_blob_Inr:
  assumes "post_blob c rp = (Inr s, rp')"
  shows "refs rp' = refs rp \<and> commits rp' = commits rp \<and> trees rp' = trees rp
     \<and> (\<exists>bs. blobs rp' = blobs rp @ bs) \<and> s < length (blobs rp') \<and> blobs rp' ! s = c"
  using assms
  by (auto simp: post_blob_def dest: index_of_Some split: option.splits)

text \<open>The tree entry that \<open>createCommit\<close> builds for a file and its blob.\<close>

definition entry_of :: "GitHubFile \<Rightarrow> nat \<Rightarrow> tree_entry" where
  "entry_of f s = \<lparr>e_path = path f, e_mode = js ''100644'', e_type = js ''blob'', e_sha = s\<rparr>"

lemma create_blobs_Inr:
  assumes "create_blobs ow rn fs tree g = (Inr tree', g')" and "repos g (ow, rn) = Some rp"
  shows "\<exists>rp' ss. repos g' = (repos g)((ow, rn) \<mapsto> rp') \<and> refs rp' = refs rp
     \<and> commits rp' = commits rp \<and> trees rp' = trees rp \<and> (\<exists>bs. blobs rp' = blobs rp @ bs)
     \<and> requests g' = requests g + length fs \<and> faults g' = faults g
     \<and> (\<forall>i < length fs. faults g (requests g + i) = None)
     \<and> length ss = length fs \<and> tree' = tree @ map2 entry_of fs ss
     \<and> (\<forall>i < length fs. ss ! i < length (blobs rp') \<and> blobs rp' ! (ss ! i) = content (fs ! i))"
  using assms
proof (induction fs arbitrary: tree g rp)
  case Nil
  then show ?case
    by (intro exI [of _ rp] exI [of _ "[]::nat list"]) (auto simp: fun_upd_idem)
next
  case (Cons f0 fs)
  from Cons.prems(1) obtain s g1 where
    s: "fetch (on_repo ow rn (post_blob (content f0))) g = (Inr s, g1)"
    and rest: "create_blobs ow rn fs (tree @ [entry_of f0 s]) g1 = (Inr tree', g')"
    by (auto simp: entry_of_def split: prod.splits sum.splits)
  from fetch_Inr [OF s] Cons.prems(2) obtain rp1 where
    f0: "faults g (requests g) = None" and pb: "post_blob (content f0) rp = (Inr s, rp1)"
    and g1: "g1 = g\<lparr>requests := Suc (requests g), repos := (repos g)((ow, rn) \<mapsto> rp1)\<rparr>"
    by auto
  from post_blob_Inr [OF pb] obtain bs1 where
    rp1: "refs rp1 = refs rp" "commits rp1 = commits rp" "trees rp1 = trees rp"
      "blobs rp1 = blobs rp @ bs1" "s < length (blobs rp1)" "blobs rp1 ! s = content f0"
    by auto
  have r1: "repos g1 (ow, rn) = Some rp1" using g1 by simp
  from Cons.IH [OF rest r1] obtain rp' ss where
    ihc: "repos g' = (repos g1)((ow, rn) \<mapsto> rp') \<and> refs rp' = refs rp1
     \<and> commits rp' = commits rp1 \<and> trees rp' = trees rp1 \<and> (\<exists>bs. blobs rp' = blobs rp1 @ bs)
     \<and> requests g' = requests g1 + length fs \<and> faults g' = faults g1
     \<and> (\<forall>i < length fs. faults g1 (requests g1 + i) = None)
     \<and> length ss = length fs \<and> tree' = (tree @ [entry_of f0 s]) @ map2 entry_of fs ss
     \<and> (\<forall>i < length fs. ss ! i < length (blobs rp') \<and> blobs rp' ! (ss ! i) = content (fs ! i))"
    by blast
  then obtain bs where bs: "blobs rp' = blobs rp1 @ bs" by blast
  from ihc have ih: "repos g' = (repos g1)((ow, rn) \<mapsto> rp')" "refs rp' = refs rp1"
      "commits rp' = commits rp1" "trees rp' = trees rp1"
      "requests g' = requests g1 + length fs" "faults g' = faults g1"
      "\<forall>i < length fs. faults g1 (requests g1 + i) = None"
      "length ss = length fs" "tree' = (tree @ [entry_of f0 s]) @ map2 entry_of fs ss"
      "\<forall>i < length fs. ss ! i < length (blobs rp') \<and> blobs rp' ! (ss ! i) = content (fs ! i)"
    by simp_all
  have faults: "\<forall>i < length (f0 # fs). faults g (requests g + i) = None"
  proof (intro allI impI)
    fix i assume "i < length (f0 # fs)"
    then show "faults g (requests g + i) = None"
      using f0 ih(7) g1 by (cases i) auto
  qed
  have blobs: "\<forall>i < length (f0 # fs). (s # ss) ! i < length (blobs rp')
       \<and> blobs rp' ! ((s # ss) ! i) = content ((f0 # fs) ! i)"
  proof (intro allI impI)
    fix i assume "i < length (f0 # fs)"
    then show "(s # ss) ! i < length (blobs rp')
       \<and> blobs rp' ! ((s # ss) ! i) = content ((f0 # fs) ! i)"
      using ih(10) bs rp1(5,6) by (cases i) (auto simp: nth_append)
  qed
  show ?case
  proof (rule exI [of _ rp'], rule exI [of _ "s # ss"], intro conjI)
    show "repos g' = (repos g)((ow, rn) \<mapsto> rp')" using ih(1) g1 by simp
    show "refs rp' = refs rp" using ih(2) rp1(1) by simp
    show "commits rp' = commits rp" using ih(3) rp1(2) by simp
    show "trees rp' = trees rp" using ih(4) rp1(3) by simp
    show "\<exists>bs. blobs rp' = blobs rp @ bs" using bs rp1(4) by simp
    show "requests g' = requests g + length (f0 # fs)" using ih(5) g1 by simp
    show "faults g' = faults g" using ih(6) g1 by simp
    show "\<forall>i < length (f0 # fs). faults g (requests g + i) = None" by (rule faults)
    show "length (s # ss) = length (f0 # fs)" using ih(8) by simp
    show "tree' = tree @ map2 entry_of (f0 # fs) (s # ss)" using ih(9) by simp
    show "\<forall>i < length (f0 # fs). (s # ss) ! i < length (blobs rp')
       \<and> blobs rp' ! ((s # ss) ! i) = content ((f0 # fs) ! i)" by (rule blobs)
  qed
qed

lemma overlay_Cons:
  "overlay t (e # es) = overlay (t(e_path e \<mapsto> (e_mode e, e_type e, e_sha e))) es"
  by (simp add: overlay_def)

lemma overlay_other: "p \<notin> e_path ` set es \<Longrightarrow> overlay t es p = t p"
  by (induction es arbitrary: t) (auto simp: overlay_Cons, simp add: overlay_def)

lemma overlay_at:
  "distinct (map e_path es) \<Longrightarrow> e \<in> set es
     \<Longrightarrow> overlay t es (e_path e) = Some (e_mode e, e_type e, e_sha e)"
proof (induction es arbitrary: t)
  case Nil
  then show ?case by simp
next
  case (Cons a es)
  show ?case
  proof (cases "e = a")
    case True
    with Cons.prems have "e_path a \<notin> e_path ` set es" by simp
    with True show ?thesis by (simp add: overlay_Cons overlay_other)
  next
    case False
    with Cons show ?thesis by (simp add: overlay_Cons)
  qed
qed


lemma get_ref_Inr: "get_ref b rp = (Inr s, rp') \<Longrightarrow> rp' = rp \<and> refs rp b = Some s"
  by (auto simp: get_ref_def split: option.splits)

lemma get_commit_Inr:
  "get_commit s rp = (Inr t, rp') \<Longrightarrow> rp' = rp \<and> s < length (commits rp) \<and> t = c_tree (commits rp ! s)"
  by (auto simp: get_commit_def split: if_splits)

lemma post_tree_Inr:
  "post_tree b es rp = (Inr t, rp') \<Longrightarrow> b < length (trees rp) \<and> t = length (trees rp)
     \<and> rp' = rp\<lparr>trees := trees rp @ [overlay (trees rp ! b) es]\<rparr>"
  by (auto simp: post_tree_def split: if_splits)

lemma post_commit_Inr:
  "post_commit m t ps rp = (Inr c, rp') \<Longrightarrow> c = length (commits rp)
     \<and> rp' = rp\<lparr>commits := commits rp @ [\<lparr>c_message = m, c_tree = t, c_parents = ps\<rparr>]\<rparr>"
  by (auto simp: post_commit_def split: if_splits)

lemma patch_ref_Inr:
  "patch_ref b s rp = (Inr u, rp') \<Longrightarrow> rp' = rp\<lparr>refs := (refs rp)(b \<mapsto> s)\<rparr>"
  by (auto simp: patch_ref_def split: if_splits)

lemma createCommit_Inr:
  assumes "createCommit ow rn branch msg fs g = (Inr sha, g')"
  shows "\<exists>rp rp' base ss. repos g (ow, rn) = Some rp \<and> repos g' = (repos g)((ow, rn) \<mapsto> rp')
     \<and> refs rp branch = Some base \<and> base < length (commits rp)
     \<and> c_tree (commits rp ! base) < length (trees rp)
     \<and> refs rp' = (refs rp)(branch \<mapsto> sha) \<and> sha = length (commits rp)
     \<and> commits rp' = commits rp
          @ [\<lparr>c_message = msg, c_tree = length (trees rp), c_parents = [base]\<rparr>]
     \<and> trees rp' = trees rp
          @ [overlay (trees rp ! c_tree (commits rp ! base)) (map2 entry_of fs ss)]
     \<and> length ss = length fs
     \<and> (\<forall>i < length fs. ss ! i < length (blobs rp') \<and> blobs rp' ! (ss ! i) = content (fs ! i))
     \<and> requests g' = requests g + length fs + 5
     \<and> (\<forall>i < length fs + 5. faults g (requests g + i) = None)"
proof -
  from assms obtain base g1 bt g2 tree g3 nt g4 c g5 u where
    s1: "fetch (on_repo ow rn (get_ref branch)) g = (Inr base, g1)"
    and s2: "fetch (on_repo ow rn (get_commit base)) g1 = (Inr bt, g2)"
    and s3: "create_blobs ow rn fs [] g2 = (Inr tree, g3)"
    and s4: "fetch (on_repo ow rn (post_tree bt tree)) g3 = (Inr nt, g4)"
    and s5: "fetch (on_repo ow rn (post_commit msg nt [base])) g4 = (Inr c, g5)"
    and s6: "fetch (on_repo ow rn (patch_ref branch c)) g5 = (Inr u, g')"
    and sha: "sha = c"
    by (auto simp: createCommit_def split: prod.splits sum.splits)
  from fetch_Inr [OF s1] obtain rp where
    f0: "faults g (requests g) = None" and rp: "repos g (ow, rn) = Some rp"
    and base: "refs rp branch = Some base"
    and g1: "g1 = g\<lparr>requests := Suc (requests g), repos := (repos g)((ow, rn) \<mapsto> rp)\<rparr>"
    by (auto dest: get_ref_Inr)
  have r1: "repos g1 (ow, rn) = Some rp" using g1 by simp
  from fetch_Inr [OF s2] r1 have
    f1: "faults g1 (requests g1) = None" and b2: "base < length (commits rp)"
    and bt: "bt = c_tree (commits rp ! base)"
    and g2: "g2 = g1\<lparr>requests := Suc (requests g1), repos := (repos g1)((ow, rn) \<mapsto> rp)\<rparr>"
    by (auto dest: get_commit_Inr)
  have r2: "repos g2 (ow, rn) = Some rp" using g2 by simp
  from create_blobs_Inr [OF s3 r2] obtain rp3 ss where
    c3: "repos g3 = (repos g2)((ow, rn) \<mapsto> rp3)" "refs rp3 = refs rp"
      "commits rp3 = commits rp" "trees rp3 = trees rp"
      "requests g3 = requests g2 + length fs" "faults g3 = faults g2"
      "\<forall>i < length fs. faults g2 (requests g2 + i) = None"
      "length ss = length fs" "tree = [] @ map2 entry_of fs ss"
      "\<forall>i < length fs. ss ! i < length (blobs rp3) \<and> blobs rp3 ! (ss ! i) = content (fs ! i)"
    by blast
  have r3: "repos g3 (ow, rn) = Some rp3" using c3(1) by simp
  from fetch_Inr [OF s4] r3 have
    f3: "faults g3 (requests g3) = None" and b4: "bt < length (trees rp3)"
    and nt: "nt = length (trees rp3)"
    and g4: "g4 = g3\<lparr>requests := Suc (requests g3), repos := (repos g3)((ow, rn) \<mapsto>
        rp3\<lparr>trees := trees rp3 @ [overlay (trees rp3 ! bt) tree]\<rparr>)\<rparr>"
    by (auto dest: post_tree_Inr)
  define rp4 where "rp4 = rp3\<lparr>trees := trees rp3 @ [overlay (trees rp3 ! bt) tree]\<rparr>"
  have r4: "repos g4 (ow, rn) = Some rp4" using g4 rp4_def by simp
  from fetch_Inr [OF s5] r4 have
    f4: "faults g4 (requests g4) = None" and c: "c = length (commits rp4)"
    and g5: "g5 = g4\<lparr>requests := Suc (requests g4), repos := (repos g4)((ow, rn) \<mapsto>
        rp4\<lparr>commits := commits rp4 @ [\<lparr>c_message = msg, c_tree = nt, c_parents = [base]\<rparr>]\<rparr>)\<rparr>"
    by (auto dest: post_commit_Inr)
  define rp5 where
    "rp5 = rp4\<lparr>commits := commits rp4 @ [\<lparr>c_message = msg, c_tree = nt, c_parents = [base]\<rparr>]\<rparr>"
  have r5: "repos g5 (ow, rn) = Some rp5" using g5 rp5_def by simp
  from fetch_Inr [OF s6] r5 have
    f5: "faults g5 (requests g5) = None"
    and g6: "g' = g5\<lparr>requests := Suc (requests g5), repos := (repos g5)((ow, rn) \<mapsto>
        rp5\<lparr>refs := (refs rp5)(branch \<mapsto> c)\<rparr>)\<rparr>"
    by (auto dest: patch_ref_Inr)
  define rp6 where "rp6 = rp5\<lparr>refs := (refs rp5)(branch \<mapsto> c)\<rparr>"
  have q1: "requests g1 = requests g + 1" "faults g1 = faults g" using g1 by simp_all
  have q2: "requests g2 = requests g + 2" "faults g2 = faults g" using g2 q1 by simp_all
  have q3: "requests g3 = requests g + 2 + length fs" "faults g3 = faults g"
    using c3(5,6) q2 by simp_all
  have q4: "requests g4 = requests g + 3 + length fs" "faults g4 = faults g"
    using g4 q3 by simp_all
  have q5: "requests g5 = requests g + 4 + length fs" "faults g5 = faults g"
    using g5 q4 by simp_all
  have q6: "requests g' = requests g + length fs + 5" using g6 q5 by simp
  have nofault: "\<forall>i < length fs + 5. faults g (requests g + i) = None"
  proof (intro allI impI)
    fix i assume i: "i < length fs + 5"
    then consider "i = 0" | "i = 1" | j where "j < length fs" "i = 2 + j"
      | "i = 2 + length fs" | "i = 3 + length fs" | "i = 4 + length fs"
      by atomize_elim presburger
    then show "faults g (requests g + i) = None"
    proof cases
      case 1
      then show ?thesis using f0 by simp
    next
      case 2
      then show ?thesis using f1 q1 by simp
    next
      case (3 j)
      then show ?thesis using c3(7) q2 by (simp add: ac_simps)
    next
      case 4
      then show ?thesis using f3 q3 by (simp add: ac_simps)
    next
      case 5
      then show ?thesis using f4 q4 by (simp add: ac_simps)
    next
      case 6
      then show ?thesis using f5 q5 by (simp add: ac_simps)
    qed
  qed
  show ?thesis
  proof (rule exI [of _ rp], rule exI [of _ rp6], rule exI [of _ base], rule exI [of _ ss],
      intro conjI)
    show "repos g (ow, rn) = Some rp" by (rule rp)
    show "repos g' = (repos g)((ow, rn) \<mapsto> rp6)"
      using g6 g5 g4 c3(1) g2 g1 rp6_def rp5_def rp4_def by simp
    show "refs rp branch = Some base" by (rule base)
    show "base < length (commits rp)" by (rule b2)
    show "c_tree (commits rp ! base) < length (trees rp)" using b4 bt c3(4) by simp
    show "refs rp6 = (refs rp)(branch \<mapsto> sha)"
      using rp6_def rp5_def rp4_def c3(2) sha by simp
    show "sha = length (commits rp)" using sha c rp4_def c3(3) by simp
    show "commits rp6 = commits rp
          @ [\<lparr>c_message = msg, c_tree = length (trees rp), c_parents = [base]\<rparr>]"
      using rp6_def rp5_def rp4_def c3(3,4) nt by simp
    show "trees rp6 = trees rp
          @ [overlay (trees rp ! c_tree (commits rp ! base)) (map2 entry_of fs ss)]"
      using rp6_def rp5_def rp4_def c3(4,9) bt by simp
    show "length ss = length fs" by (rule c3(8))
    show "\<forall>i < length fs. ss ! i < length (blobs rp6) \<and> blobs rp6 ! (ss ! i) = content (fs ! i)"
      using c3(10) rp6_def rp5_def rp4_def by simp
    show "requests g' = requests g + length fs + 5" by (rule q6)
    show "\<forall>i < length fs + 5. faults g (requests g + i) = None" by (rule nofault)
  qed
qed


text \<open>The number of entries in which the trees of two commits differ.\<close>

definition tree_diff :: "repo \<Rightarrow> nat \<Rightarrow> repo \<Rightarrow> nat \<Rightarrow> nat option" where
  "tree_diff rp a rp' b =
     (case (tree_of rp a, tree_of rp' b) of
        (Some t, Some t') \<Rightarrow> Some (card (changed_paths t t'))
      | _ \<Rightarrow> None)"

text \<open>
  A repository of one commit, whose tree holds README.md with the content \<open>hello\<close>;
  a host that serves every request, and one on which the fourth request fails.
\<close>

definition repo0 :: repo where
  "repo0 = \<lparr>refs = [js ''main'' \<mapsto> 0],
     commits = [\<lparr>c_message = js ''init'', c_tree = 0, c_parents = []\<rparr>],
     trees = [[js ''README.md'' \<mapsto> (js ''100644'', js ''blob'', 0)]],
     blobs = [js ''hello''], files = Map.empty\<rparr>"

definition host0 :: github where
  "host0 = \<lparr>repos = [(js ''CyberBrown'', js ''de'') \<mapsto> repo0], requests = 0,
     faults = (\<lambda>n. None), issues = [], pulls = []\<rparr>"

definition host1 :: github where
  "host1 = host0\<lparr>faults := (\<lambda>n. if n = 3 then Some (HttpFault 503 (js ''Service Unavailable''))
     else None)\<rparr>"

lemma grows_tree_of: "grows rp rp' \<Longrightarrow> tree_of rp c = Some t \<Longrightarrow> tree_of rp' c = Some t"
  by (auto simp: grows_def tree_of_def nth_append split: if_splits)


lemma createCommit_failure_keeps_refs:
  assumes c: "createCommit ow rn branch msg fs g = (Inl e, g')" and rp: "repos g key = Some rp"
  shows "\<exists>rp'. repos g' key = Some rp' \<and> refs rp' = refs rp
            \<and> (\<forall>c t. tree_of rp c = Some t \<longrightarrow> tree_of rp' c = Some t)"
proof -
  have "grows_all g g'" using c by (rule createCommit_Inl_grows)
  then have "case repos g key of None \<Rightarrow> repos g' key = None
     | Some rp \<Rightarrow> (\<exists>rp'. repos g' key = Some rp' \<and> grows rp rp')"
    unfolding grows_all_def by (rule spec)
  then have "\<exists>rp'. repos g' key = Some rp' \<and> grows rp rp'"
    using rp by simp
  then obtain rp' where a: "repos g' key = Some rp'" and b: "grows rp rp'"
    by blast
  have "refs rp' = refs rp" using b by (simp add: grows_def)
  moreover have "\<forall>c t. tree_of rp c = Some t \<longrightarrow> tree_of rp' c = Some t"
    using grows_tree_of [OF b] by blast
  ultimately show ?thesis
    using a by blast
qed

lemma createCommit_fault_fails:
  assumes f: "\<exists>i < length fs + 5. faults g (requests g + i) \<noteq> None"
  shows "\<exists>e. fst (createCommit ow rn branch msg fs g) = Inl e"
proof (cases "createCommit ow rn branch msg fs g")
  case (Pair x g')
  show ?thesis
  proof (cases x)
    case (Inl e)
    with Pair show ?thesis by simp
  next
    case (Inr sha)
    with Pair have "createCommit ow rn branch msg fs g = (Inr sha, g')" by simp
    from createCommit_Inr [OF this]
    have nf: "\<forall>i < length fs + 5. faults g (requests g + i) = None"
      by (elim exE conjE)
    from f obtain i where i: "i < length fs + 5" and ne: "faults g (requests g + i) \<noteq> None"
      by (elim exE conjE)
    from nf i have "faults g (requests g + i) = None"
      by (elim allE impE)
    with ne show ?thesis by simp
  qed
qed

lemma createCommit_success_moves_branch:
  assumes "createCommit ow rn branch msg fs g = (Inr sha, g')"
  shows "\<exists>rp rp'. repos g (ow, rn) = Some rp \<and> repos g' = (repos g)((ow, rn) \<mapsto> rp')
           \<and> refs rp' = (refs rp)(branch \<mapsto> sha)"
proof -
  from createCommit_Inr [OF assms] obtain rp rp' where
    "repos g (ow, rn) = Some rp" "repos g' = (repos g)((ow, rn) \<mapsto> rp')"
    "refs rp' = (refs rp)(branch \<mapsto> sha)"
    by (elim exE conjE)
  then show ?thesis
    by (intro exI conjI)
qed

text \<open>
  Claim C4. When \<open>createCommit\<close> raises an error, every branch of every repository
  refers to the commit it referred to before, and the tree of every commit is what it was;
  a request that fails among the \<open>length fs + 5\<close> requests of the call makes it raise;
  and on success the one change to the branches is that the branch of the call refers to
  the new commit.
\<close>

theorem createCommit_atomic:
  "(\<forall>e g'. createCommit ow rn branch msg fs g = (Inl e, g') \<longrightarrow>
      (\<forall>key rp. repos g key = Some rp \<longrightarrow>
         (\<exists>rp'. repos g' key = Some rp' \<and> refs rp' = refs rp
            \<and> (\<forall>c t. tree_of rp c = Some t \<longrightarrow> tree_of rp' c = Some t))))
   \<and> ((\<exists>i < length fs + 5. faults g (requests g + i) \<noteq> None) \<longrightarrow>
        (\<exists>e. fst (createCommit ow rn branch msg fs g) = Inl e))
   \<and> (\<forall>sha g'. createCommit ow rn branch msg fs g = (Inr sha, g') \<longrightarrow>
        (\<exists>rp rp'. repos g (ow, rn) = Some rp \<and> repos g' = (repos g)((ow, rn) \<mapsto> rp')
           \<and> refs rp' = (refs rp)(branch \<mapsto> sha)))"
proof (intro conjI allI impI)
  fix e g' key rp
  assume "createCommit ow rn branch msg fs g = (Inl e, g')" "repos g key = Some rp"
  then show "\<exists>rp'. repos g' key = Some rp' \<and> refs rp' = refs rp
            \<and> (\<forall>c t. tree_of rp c = Some t \<longrightarrow> tree_of rp' c = Some t)"
    by (rule createCommit_failure_keeps_refs)
next
  assume "\<exists>i < length fs + 5. faults g (requests g + i) \<noteq> None"
  then show "\<exists>e. fst (createCommit ow rn branch msg fs g) = Inl e"
    by (rule createCommit_fault_fails)
next
  fix sha g'
  assume "createCommit ow rn branch msg fs g = (Inr sha, g')"
  then show "\<exists>rp rp'. repos g (ow, rn) = Some rp \<and> repos g' = (repos g)((ow, rn) \<mapsto> rp')
           \<and> refs rp' = (refs rp)(branch \<mapsto> sha)"
    by (rule createCommit_success_moves_branch)
qed
text \<open>
  Claim C3, as amended. A successful \<open>createCommit\<close> with files of distinct paths adds
  exactly one commit, whose parent is the commit the branch referred to, and leaves the
  branch referring to the new commit, whose identifier it returns. The tree of the new
  commit holds every file at its path; it differs from the parent's tree at those paths
  only, at most one entry per file, and in as many entries as there are files exactly when
  every file differs from what the parent's tree holds at its path.
\<close>

theorem createCommit_one_commit:
  assumes "createCommit ow rn branch msg fs g = (Inr sha, g')" and "distinct (map path fs)"
  shows "\<exists>rp rp' base t t'. repos g (ow, rn) = Some rp \<and> repos g' (ow, rn) = Some rp'
     \<and> refs rp branch = Some base \<and> tree_of rp base = Some t
     \<and> commits rp' = commits rp
          @ [\<lparr>c_message = msg, c_tree = length (trees rp), c_parents = [base]\<rparr>]
     \<and> sha = length (commits rp) \<and> refs rp' branch = Some sha
     \<and> tree_of rp' sha = Some t'
     \<and> (\<forall>f \<in> set fs. \<exists>s. t' (path f) = Some (js ''100644'', js ''blob'', s)
           \<and> s < length (blobs rp') \<and> blobs rp' ! s = content f)
     \<and> changed_paths t t' = {p \<in> path ` set fs. t p \<noteq> t' p}
     \<and> card (changed_paths t t') \<le> length fs
     \<and> (card (changed_paths t t') = length fs \<longleftrightarrow> (\<forall>f \<in> set fs. t (path f) \<noteq> t' (path f)))"
proof -
  from createCommit_Inr [OF assms(1)] obtain rp rp' base ss where
    h: "repos g (ow, rn) = Some rp" "repos g' = (repos g)((ow, rn) \<mapsto> rp')"
      "refs rp branch = Some base" "base < length (commits rp)"
      "c_tree (commits rp ! base) < length (trees rp)"
      "refs rp' = (refs rp)(branch \<mapsto> sha)" "sha = length (commits rp)"
      "commits rp' = commits rp
          @ [\<lparr>c_message = msg, c_tree = length (trees rp), c_parents = [base]\<rparr>]"
      "trees rp' = trees rp
          @ [overlay (trees rp ! c_tree (commits rp ! base)) (map2 entry_of fs ss)]"
      "length ss = length fs"
      "\<forall>i < length fs. ss ! i < length (blobs rp') \<and> blobs rp' ! (ss ! i) = content (fs ! i)"
    by blast
  define t where "t = trees rp ! c_tree (commits rp ! base)"
  define es where "es = map2 entry_of fs ss"
  define t' where "t' = overlay t es"
  have paths: "map e_path es = map path fs"
    using h(10) unfolding es_def
    by (induction fs ss rule: list_induct2') (auto simp: entry_of_def)
  then have dist: "distinct (map e_path es)" using assms(2) by simp
  have img: "e_path ` set es = path ` set fs"
    using paths by (metis list.set_map)
  have t1: "tree_of rp base = Some t"
    using h(4,5) by (simp add: tree_of_def t_def)
  have t2: "tree_of rp' sha = Some t'"
    using h(7,8,9) by (simp add: tree_of_def t'_def t_def es_def nth_append)
  have at: "\<forall>f \<in> set fs. \<exists>s. t' (path f) = Some (js ''100644'', js ''blob'', s)
           \<and> s < length (blobs rp') \<and> blobs rp' ! s = content f"
  proof
    fix f assume "f \<in> set fs"
    then obtain i where i: "i < length fs" "f = fs ! i"
      by (auto simp: in_set_conv_nth)
    then have "es ! i = entry_of f (ss ! i)" "i < length es"
      using h(10) by (simp_all add: es_def)
    then have "entry_of f (ss ! i) \<in> set es"
      by (metis nth_mem)
    from overlay_at [OF dist this, of t]
    have "t' (path f) = Some (js ''100644'', js ''blob'', ss ! i)"
      by (simp add: t'_def entry_of_def)
    with h(11) i show "\<exists>s. t' (path f) = Some (js ''100644'', js ''blob'', s)
           \<and> s < length (blobs rp') \<and> blobs rp' ! s = content f"
      by blast
  qed
  have other: "\<And>p. t p \<noteq> t' p \<Longrightarrow> p \<in> path ` set fs"
    using overlay_other [of _ es t] img unfolding t'_def by metis
  have ch: "changed_paths t t' = {p \<in> path ` set fs. t p \<noteq> t' p}"
    using other by (auto simp: changed_paths_def)
  have cardP: "card (path ` set fs) = length fs"
    using assms(2) by (metis distinct_card list.set_map length_map)
  have sub: "changed_paths t t' \<subseteq> path ` set fs" using ch by auto
  have le: "card (changed_paths t t') \<le> length fs"
    using card_mono [OF _ sub] cardP by simp
  have iff: "card (changed_paths t t') = length fs \<longleftrightarrow> (\<forall>f \<in> set fs. t (path f) \<noteq> t' (path f))"
  proof
    assume "card (changed_paths t t') = length fs"
    then have "changed_paths t t' = path ` set fs"
      using card_subset_eq [OF _ sub] cardP by simp
    then show "\<forall>f \<in> set fs. t (path f) \<noteq> t' (path f)"
      by (auto simp: changed_paths_def)
  next
    assume "\<forall>f \<in> set fs. t (path f) \<noteq> t' (path f)"
    then have "changed_paths t t' = path ` set fs"
      using ch by auto
    then show "card (changed_paths t t') = length fs" using cardP by simp
  qed
  have r': "repos g' (ow, rn) = Some rp'" using h(2) by simp
  have ref': "refs rp' branch = Some sha" using h(6) by simp
  show ?thesis
  proof (rule exI [of _ rp], rule exI [of _ rp'], rule exI [of _ base], rule exI [of _ t],
      rule exI [of _ t'], intro conjI)
    show "repos g (ow, rn) = Some rp" by (rule h(1))
    show "repos g' (ow, rn) = Some rp'" by (rule r')
    show "refs rp branch = Some base" by (rule h(3))
    show "tree_of rp base = Some t" by (rule t1)
    show "commits rp' = commits rp
          @ [\<lparr>c_message = msg, c_tree = length (trees rp), c_parents = [base]\<rparr>]"
      by (rule h(8))
    show "sha = length (commits rp)" by (rule h(7))
    show "refs rp' branch = Some sha" by (rule ref')
    show "tree_of rp' sha = Some t'" by (rule t2)
    show "\<forall>f \<in> set fs. \<exists>s. t' (path f) = Some (js ''100644'', js ''blob'', s)
           \<and> s < length (blobs rp') \<and> blobs rp' ! s = content f" by (rule at)
    show "changed_paths t t' = {p \<in> path ` set fs. t p \<noteq> t' p}" by (rule ch)
    show "card (changed_paths t t') \<le> length fs" by (rule le)
    show "card (changed_paths t t') = length fs
        \<longleftrightarrow> (\<forall>f \<in> set fs. t (path f) \<noteq> t' (path f))" by (rule iff)
  qed
qed

text \<open>The definitions that evaluate \<open>createCommit\<close> on a concrete host.\<close>

lemmas host_eval = createCommit_def fetch_def on_repo_def get_ref_def get_commit_def
  post_blob_def post_tree_def post_commit_def patch_ref_def overlay_def host0_def host1_def
  repo0_def js_def Let_def

text \<open>
  Claim C3 as stated fails when a pending file has the content the parent's tree already
  holds: one pending file, one new commit, and a tree that differs from the parent's tree
  in no entry.
\<close>

theorem createCommit_unchanged_file_counterexample:
  "fst (createCommit (js ''CyberBrown'') (js ''de'') (js ''main'') (js ''update'')
          [\<lparr>path = js ''README.md'', content = js ''hello''\<rparr>] host0) = Inr 1
   \<and> map_option (\<lambda>rp'. tree_diff repo0 0 rp' 1)
        (repos (snd (createCommit (js ''CyberBrown'') (js ''de'') (js ''main'') (js ''update'')
          [\<lparr>path = js ''README.md'', content = js ''hello''\<rparr>] host0))
          (js ''CyberBrown'', js ''de''))
       = Some (Some 0)
   \<and> length [\<lparr>path = js ''README.md'', content = js ''hello''\<rparr>] = 1"
  by (simp add: host_eval tree_diff_def tree_of_def changed_paths_def)

theorem createCommit_one_commit_witness:
  "fst (createCommit (js ''CyberBrown'') (js ''de'') (js ''main'') (js ''update'')
          [\<lparr>path = js ''README.md'', content = js ''bye''\<rparr>] host0) = Inr 1
   \<and> (\<exists>rp rp' base t t'. repos host0 (js ''CyberBrown'', js ''de'') = Some rp
     \<and> repos (snd (createCommit (js ''CyberBrown'') (js ''de'') (js ''main'') (js ''update'')
          [\<lparr>path = js ''README.md'', content = js ''bye''\<rparr>] host0))
          (js ''CyberBrown'', js ''de'') = Some rp'
     \<and> refs rp (js ''main'') = Some base \<and> tree_of rp base = Some t
     \<and> commits rp' = commits rp
          @ [\<lparr>c_message = js ''update'', c_tree = length (trees rp), c_parents = [base]\<rparr>]
     \<and> 1 = length (commits rp) \<and> refs rp' (js ''main'') = Some 1
     \<and> tree_of rp' 1 = Some t'
     \<and> (\<forall>f \<in> set [\<lparr>path = js ''README.md'', content = js ''bye''\<rparr>].
           \<exists>s. t' (path f) = Some (js ''100644'', js ''blob'', s)
           \<and> s < length (blobs rp') \<and> blobs rp' ! s = content f)
     \<and> changed_paths t t'
          = {p \<in> path ` set [\<lparr>path = js ''README.md'', content = js ''bye''\<rparr>]. t p \<noteq> t' p}
     \<and> card (changed_paths t t') \<le> length [\<lparr>path = js ''README.md'', content = js ''bye''\<rparr>]
     \<and> (card (changed_paths t t') = length [\<lparr>path = js ''README.md'', content = js ''bye''\<rparr>]
          \<longleftrightarrow> (\<forall>f \<in> set [\<lparr>path = js ''README.md'', content = js ''bye''\<rparr>].
                t (path f) \<noteq> t' (path f))))"
proof -
  have a: "fst (createCommit (js ''CyberBrown'') (js ''de'') (js ''main'') (js ''update'')
          [\<lparr>path = js ''README.md'', content = js ''bye''\<rparr>] host0) = Inr 1"
    by (simp add: host_eval)
  then have e: "createCommit (js ''CyberBrown'') (js ''de'') (js ''main'') (js ''update'')
          [\<lparr>path = js ''README.md'', content = js ''bye''\<rparr>] host0
     = (Inr 1, snd (createCommit (js ''CyberBrown'') (js ''de'') (js ''main'') (js ''update'')
          [\<lparr>path = js ''README.md'', content = js ''bye''\<rparr>] host0))"
    by (simp add: prod_eq_iff)
  have d: "distinct (map path [\<lparr>path = js ''README.md'', content = js ''bye''\<rparr>])"
    by simp
  from a createCommit_one_commit [OF e d] show ?thesis
    by (rule conjI)
qed

theorem createCommit_atomic_witness:
  "(\<exists>e. fst (createCommit (js ''CyberBrown'') (js ''de'') (js ''main'') (js ''update'')
          [\<lparr>path = js ''README.md'', content = js ''bye''\<rparr>,
           \<lparr>path = js ''docs/a.md'', content = js ''x''\<rparr>] host1) = Inl e)
   \<and> (\<exists>rp'. repos (snd (createCommit (js ''CyberBrown'') (js ''de'') (js ''main'') (js ''update'')
          [\<lparr>path = js ''README.md'', content = js ''bye''\<rparr>,
           \<lparr>path = js ''docs/a.md'', content = js ''x''\<rparr>] host1))
          (js ''CyberBrown'', js ''de'') = Some rp'
        \<and> refs rp' = refs repo0
        \<and> (\<forall>c t. tree_of repo0 c = Some t \<longrightarrow> tree_of rp' c = Some t))"
proof -
  let ?fs = "[\<lparr>path = js ''README.md'', content = js ''bye''\<rparr>,
           \<lparr>path = js ''docs/a.md'', content = js ''x''\<rparr>]"
  let ?run = "createCommit (js ''CyberBrown'') (js ''de'') (js ''main'') (js ''update'') ?fs host1"
  note T = createCommit_atomic [of "js ''CyberBrown''" "js ''de''" "js ''main''" "js ''update''"
      ?fs host1]
  have "faults host1 (requests host1 + 3) \<noteq> None"
    by (simp add: host1_def host0_def)
  then have "\<exists>i < length ?fs + 5. faults host1 (requests host1 + i) \<noteq> None"
    by (intro exI [of _ 3]) simp
  with T [THEN conjunct2, THEN conjunct1] have ex: "\<exists>e. fst ?run = Inl e"
    by (rule mp)
  then obtain e where "fst ?run = Inl e" ..
  then have r: "?run = (Inl e, snd ?run)"
    by (simp add: prod_eq_iff)
  have k: "repos host1 (js ''CyberBrown'', js ''de'') = Some repo0"
    by (simp add: host1_def host0_def)
  from T [THEN conjunct1, rule_format, OF r k]
  have "\<exists>rp'. repos (snd ?run) (js ''CyberBrown'', js ''de'') = Some rp'
        \<and> refs rp' = refs repo0
        \<and> (\<forall>c t. tree_of repo0 c = Some t \<longrightarrow> tree_of rp' c = Some t)" .
  with ex show ?thesis
    by (rule conjI)
qed


section \<open>Properties of the pipeline and of the coordinator\<close>

text \<open>
  The status pattern matches one glyph, of one or two code units, and the parser stores
  the match: the status of a record is a glyph, never a glyph and a word.
\<close>

lemma bt_status_len: "bt status_rx s 0 [] [] = Some (len, gs) \<Longrightarrow> len \<le> 2"
  by (auto simp: status_rx_def yellow_def green_def check_mark_def red_def split: if_splits)

lemma search_status_len: "search status_rx s i = Some (j, len, gs) \<Longrightarrow> len \<le> 2"
proof (induction s arbitrary: i)
  case Nil
  then show ?case by (auto split: option.splits dest: bt_status_len)
next
  case (Cons c cs)
  then show ?case by (auto split: option.splits dest: bt_status_len)
qed

lemma match_status_len: "rx_match status_rx line = Some (m0 # ms) \<Longrightarrow> length m0 \<le> 2"
  by (auto simp: rx_match_def split: option.splits dest: search_status_len)

text \<open>A record whose status, if it has one, is at most two code units long.\<close>

definition short_status :: "question \<Rightarrow> bool" where
  "short_status q = (case status q of None \<Rightarrow> True | Some s \<Rightarrow> length s \<le> 2)"

lemma status_field_short:
  "short_status (q\<lparr>status := (case rx_match status_rx line of Some (m0 # ms) \<Rightarrow> Some m0
      | _ \<Rightarrow> None)\<rparr>)"
proof (cases "rx_match status_rx line")
  case None
  then show ?thesis by (simp add: short_status_def)
next
  case (Some ms)
  then show ?thesis
    by (cases ms) (auto simp: short_status_def dest: match_status_len)
qed

lemma from_to_short:
  "short_status q \<Longrightarrow> short_status (case rx_match from_to_rx line of
           Some [m0, m1, m2] \<Rightarrow>
             q\<lparr>askedBy := Some (toLowerCase m1), askedTo := Some (toLowerCase m2)\<rparr>
         | _ \<Rightarrow> q)"
  by (simp add: short_status_def split: option.splits list.splits)

lemma parse_line_short: "short_status q \<Longrightarrow> short_status (parse_line q line)"
  unfolding parse_line_def
  using status_field_short [where q = q and line = line] from_to_short [where q = q and line = line]
  by (simp add: short_status_def Let_def)

lemma foldl_parse_line_short: "short_status q \<Longrightarrow> short_status (foldl parse_line q ls)"
  by (induction ls arbitrary: q) (auto simp: parse_line_short)

lemma read_block_short: "short_status (read_block l0 ls)"
  unfolding read_block_def Let_def
  by (rule foldl_parse_line_short) (simp add: short_status_def)

lemma parse_block_short: "parse_block b = Inr q \<Longrightarrow> short_status q"
  using read_block_short
  by (auto simp: parse_block_def split: list.splits)

lemma parse_blocks_short:
  "parse_blocks bs acc = Inr qs \<Longrightarrow> \<forall>q \<in> set acc. short_status q \<Longrightarrow> \<forall>q \<in> set qs. short_status q"
proof (induction bs arbitrary: acc)
  case Nil
  then show ?case by simp
next
  case (Cons b bs)
  obtain q where q: "parse_block b = Inr q"
    using Cons.prems(1) by (cases "parse_block b") auto
  then have s: "short_status q" by (rule parse_block_short)
  show ?case
  proof (cases "complete q")
    case True
    with Cons.prems q have "parse_blocks bs (acc @ [q]) = Inr qs" by simp
    moreover have "\<forall>x \<in> set (acc @ [q]). short_status x" using Cons.prems(2) s by simp
    ultimately show ?thesis by (rule Cons.IH)
  next
    case False
    with Cons.prems q have "parse_blocks bs acc = Inr qs" by simp
    then show ?thesis using Cons.prems(2) by (rule Cons.IH)
  qed
qed

lemma parseQABoard_short: "parseQABoard md = Inr qs \<Longrightarrow> q \<in> set qs \<Longrightarrow> short_status q"
  using parse_blocks_short [of "questionBlocks md" "[]" qs]
  by (simp add: parseQABoard_def)

lemma no_open_status:
  assumes "parseQABoard md = Inr qs"
  shows "filter (\<lambda>q. P q \<and> status q = Some (yellow @ js '' Open'')) qs = []"
    and "filter (\<lambda>q. P q \<and> status q = Some (green @ js '' Answered'') \<and> R q) qs = []"
proof -
  have "\<And>q. q \<in> set qs \<Longrightarrow> status q \<noteq> Some (yellow @ js '' Open'')
      \<and> status q \<noteq> Some (green @ js '' Answered'')"
  proof -
    fix q assume "q \<in> set qs"
    with assms have "short_status q" by (rule parseQABoard_short)
    then show "status q \<noteq> Some (yellow @ js '' Open'')
      \<and> status q \<noteq> Some (green @ js '' Answered'')"
      by (cases "status q") (auto simp: short_status_def js_def)
  qed
  then show "filter (\<lambda>q. P q \<and> status q = Some (yellow @ js '' Open'')) qs = []"
    and "filter (\<lambda>q. P q \<and> status q = Some (green @ js '' Answered'') \<and> R q) qs = []"
    by (simp_all add: filter_empty_conv)
qed

text \<open>
  \<open>answerQuestions\<close> selects the records whose status is the glyph and the word Open,
  \<open>reviewAnswers\<close> those whose status is the glyph and the word Answered; no record has
  such a status, so each of the two phases loads the ledger and does nothing else.
\<close>

lemma parseQABoard_total: "\<exists>qs. parseQABoard b = Inr qs"
  using parse_blocks_acc [of "questionBlocks b" "[]"] by (auto simp: parseQABoard_def)

lemma answerQuestions_loads:
  "answerQuestions a w =
     (case loadQABoard w of (Inl e, w1) \<Rightarrow> (Some e, a, w1) | (Inr b, w1) \<Rightarrow> (None, a, w1))"
proof (cases "loadQABoard w")
  case (Pair x w1)
  show ?thesis
  proof (cases x)
    case (Inl e)
    with Pair show ?thesis by (simp add: answerQuestions_def)
  next
    case (Inr b)
    obtain qs where qs: "parseQABoard b = Inr qs"
      using parseQABoard_total [of b] by blast
    from no_open_status(1) [OF qs] Pair Inr qs show ?thesis
      by (simp add: answerQuestions_def)
  qed
qed

lemma reviewAnswers_loads:
  "reviewAnswers a w =
     (case loadQABoard w of (Inl e, w1) \<Rightarrow> (Some e, a, w1) | (Inr b, w1) \<Rightarrow> (None, a, w1))"
proof (cases "loadQABoard w")
  case (Pair x w1)
  show ?thesis
  proof (cases x)
    case (Inl e)
    with Pair show ?thesis by (simp add: reviewAnswers_def)
  next
    case (Inr b)
    obtain qs where qs: "parseQABoard b = Inr qs"
      using parseQABoard_total [of b] by blast
    from no_open_status(2) [OF qs] Pair Inr qs show ?thesis
      by (simp add: reviewAnswers_def)
  qed
qed

text \<open>A world extends another when it has made more calls and is otherwise the same.\<close>

definition extends :: "world \<Rightarrow> world \<Rightarrow> bool" where
  "extends w w' = (\<exists>cs. w' = w\<lparr>calls := calls w @ cs\<rparr>)"

lemma extends_refl [simp]: "extends w w"
  by (auto simp: extends_def intro: exI [of _ "[]"])

lemma extends_trans: "extends a b \<Longrightarrow> extends b c \<Longrightarrow> extends a c"
  by (auto simp: extends_def)

lemma extends_call [simp]: "extends w (w\<lparr>calls := calls w @ cs\<rparr>)"
  by (auto simp: extends_def)

lemma extends_fields:
  "extends w w' \<Longrightarrow> warnings w' = warnings w \<and> stats_reply w' = stats_reply w
     \<and> text_reply w' = text_reply w \<and> set (calls w) \<subseteq> set (calls w')"
  by (auto simp: extends_def)

lemma ask_text_extends: "ask_text c w = (r, w') \<Longrightarrow> extends w w' \<and> c \<in> set (calls w')"
  by (auto simp: ask_text_def)


lemma ask_unit_extends: "ask_unit c w = (r, w') \<Longrightarrow> extends w w'"
  by (auto simp: ask_unit_def)


lemma loadQABoard_extends: "loadQABoard w = (r, w') \<Longrightarrow> extends w w'"
  by (auto simp: loadQABoard_def split: prod.splits sum.splits dest: ask_text_extends)

text \<open>What the three phases of one query each leave as it is.\<close>

definition same_counts :: "agent \<Rightarrow> agent \<Rightarrow> bool" where
  "same_counts a a' = (agent_team a' = agent_team a \<and> team (result a') = team (result a)
     \<and> success (result a') = success (result a)
     \<and> questionsAnswered (result a') = questionsAnswered (result a)
     \<and> answersReviewed (result a') = answersReviewed (result a)
     \<and> (\<exists>es. errors (result a') = errors (result a) @ es))"

lemma same_counts_refl [simp]: "same_counts a a"
  by (simp add: same_counts_def)

lemma same_counts_trans: "same_counts a b \<Longrightarrow> same_counts b c \<Longrightarrow> same_counts a c"
  by (auto simp: same_counts_def)

lemma applyMCP_effect:
  assumes "applyMCPUpdatesToDocumentation u a w = (a', w')"
  shows "extends w w' \<and> same_counts a a'
     \<and> docsUpdated (result a') = docsUpdated (result a) @ [mcpPath]
     \<and> (\<exists>c. fileChanges a' = map_set mcpPath c (fileChanges a))
     \<and> errors (result a') = errors (result a)"
  using assms
  by (auto simp: applyMCPUpdatesToDocumentation_def Let_def push_doc_def set_file_def
      same_counts_def split: prod.splits sum.splits dest: ask_text_extends)

lemma checkMCPUpdates_effect:
  assumes "checkMCPUpdates a w = (esc, a', w')"
  shows "esc = None \<and> extends w w' \<and> same_counts a a'
     \<and> Query (mcp_prompt (agent_team a)) \<in> set (calls w')
     \<and> (docsUpdated (result a') = docsUpdated (result a)
          \<or> docsUpdated (result a') = docsUpdated (result a) @ [mcpPath])
     \<and> (fileChanges a' = fileChanges a \<or> (\<exists>c. fileChanges a' = map_set mcpPath c (fileChanges a)))"
proof (cases "ask_text (Query (mcp_prompt (agent_team a))) w")
  case (Pair r w1)
  then have e1: "extends w w1" and q: "Query (mcp_prompt (agent_team a)) \<in> set (calls w1)"
    by (auto dest: ask_text_extends)
  show ?thesis
  proof (cases r)
    case (Inl e)
    with Pair assms e1 q show ?thesis
      by (auto simp: checkMCPUpdates_def push_error_def same_counts_def)
  next
    case (Inr updates)
    show ?thesis
    proof (cases "updates \<noteq> [] \<and> 10 < length updates")
      case False
      with Pair Inr assms e1 q show ?thesis
        by (auto simp: checkMCPUpdates_def)
    next
      case True
      obtain a2 w2 where ap: "applyMCPUpdatesToDocumentation updates a w1 = (a2, w2)"
        by (cases "applyMCPUpdatesToDocumentation updates a w1")
      from applyMCP_effect [OF ap] have
        x: "extends w1 w2" "same_counts a a2"
          "docsUpdated (result a2) = docsUpdated (result a) @ [mcpPath]"
          "\<exists>c. fileChanges a2 = map_set mcpPath c (fileChanges a)"
        by simp_all
      from Pair Inr True ap assms have
        r: "esc = None" "w' = w2"
          "a' = add_cost (3 / 100) (a2\<lparr>result := (result a2)\<lparr>mcpUpdatesProcessed :=
                       Suc (mcpUpdatesProcessed (result a2))\<rparr>\<rparr>)"
        by (auto simp: checkMCPUpdates_def)
      have "extends w w'" using e1 x(1) r(2) by (auto intro: extends_trans)
      moreover have "Query (mcp_prompt (agent_team a)) \<in> set (calls w')"
        using q x(1) r(2) extends_fields by blast
      moreover have "same_counts a a'" using x(2) r(3)
        by (auto simp: same_counts_def add_cost_def)
      moreover have "docsUpdated (result a') = docsUpdated (result a) @ [mcpPath]"
        using x(3) r(3) by (simp add: add_cost_def)
      moreover have "\<exists>c. fileChanges a' = map_set mcpPath c (fileChanges a)"
        using x(4) r(3) by (simp add: add_cost_def)
      ultimately show ?thesis using r(1) by blast
    qed
  qed
qed

lemma updateActionPlan_effect:
  assumes "updateActionPlan a w = (esc, a', w')"
  shows "esc = None \<and> extends w w' \<and> same_counts a a'
     \<and> Query (plan_prompt (agent_team a)) \<in> set (calls w')
     \<and> (docsUpdated (result a') = docsUpdated (result a)
          \<or> docsUpdated (result a') = docsUpdated (result a) @ [js ''docs/ACTION-PLAN.md''])
     \<and> fileChanges a' = fileChanges a"
  using assms
  by (auto simp: updateActionPlan_def push_error_def push_doc_def add_cost_def same_counts_def
      split: prod.splits sum.splits dest: ask_text_extends)

lemma updateReadme_effect:
  assumes "updateReadme a w = (esc, a', w')"
  shows "esc = None \<and> extends w w' \<and> same_counts a a'
     \<and> Query (readme_prompt (agent_team a)) \<in> set (calls w')
     \<and> (docsUpdated (result a') = docsUpdated (result a)
          \<or> docsUpdated (result a') = docsUpdated (result a) @ [js ''README.md''])
     \<and> fileChanges a' = fileChanges a"
  using assms
  by (auto simp: updateReadme_def push_error_def push_doc_def add_cost_def same_counts_def
      split: prod.splits sum.splits if_splits dest: ask_text_extends)

lemma run_phases_unfold:
  "run_phases phases a w =
     (case answerQuestions a w of
        (Some e, a1, w1) \<Rightarrow> (Some e, a1, w1)
      | (None, a1, w1) \<Rightarrow>
     (case reviewAnswers a1 w1 of
        (Some e, a2, w2) \<Rightarrow> (Some e, a2, w2)
      | (None, a2, w2) \<Rightarrow>
     (case checkMCPUpdates a2 w2 of
        (Some e, a3, w3) \<Rightarrow> (Some e, a3, w3)
      | (None, a3, w3) \<Rightarrow>
     (case updateActionPlan a3 w3 of
        (Some e, a4, w4) \<Rightarrow> (Some e, a4, w4)
      | (None, a4, w4) \<Rightarrow> updateReadme a4 w4))))"
  by (simp add: phases_def split: prod.splits option.splits)

lemma execute_cases:
  "(\<exists>e w'. run_phases phases a w = (Some e, a, w') \<and> extends w w'
       \<and> execute a w = (push_error (message e) a, w'))
   \<or> (\<exists>w2 a3 w3 a4 w4 a5 w5. extends w w2
       \<and> checkMCPUpdates a w2 = (None, a3, w3) \<and> updateActionPlan a3 w3 = (None, a4, w4)
       \<and> updateReadme a4 w4 = (None, a5, w5) \<and> run_phases phases a w = (None, a5, w5)
       \<and> execute a w = (a5\<lparr>result := (result a5)\<lparr>success := True\<rparr>\<rparr>, w5))"
proof (cases "loadQABoard w")
  case l1: (Pair x1 w1)
  then have e1: "extends w w1" by (rule loadQABoard_extends)
  show ?thesis
  proof (cases x1)
    case (Inl e)
    with l1 have "run_phases phases a w = (Some e, a, w1)"
      by (simp add: run_phases_unfold answerQuestions_loads)
    then show ?thesis using e1 by (auto simp: execute_def)
  next
    case i1: (Inr b1)
    with l1 have p1: "answerQuestions a w = (None, a, w1)"
      by (simp add: answerQuestions_loads)
    show ?thesis
    proof (cases "loadQABoard w1")
      case l2: (Pair x2 w2)
      then have e2: "extends w w2" using e1 loadQABoard_extends extends_trans by blast
      show ?thesis
      proof (cases x2)
        case (Inl e)
        with l2 p1 have "run_phases phases a w = (Some e, a, w2)"
          by (simp add: run_phases_unfold reviewAnswers_loads)
        then show ?thesis using e2 by (auto simp: execute_def)
      next
        case i2: (Inr b2)
        with l2 have p2: "reviewAnswers a w1 = (None, a, w2)"
          by (simp add: reviewAnswers_loads)
        obtain x3 a3 w3 where c3: "checkMCPUpdates a w2 = (x3, a3, w3)"
          by (cases "checkMCPUpdates a w2")
        with checkMCPUpdates_effect [OF c3] have p3: "checkMCPUpdates a w2 = (None, a3, w3)"
          by simp
        obtain x4 a4 w4 where c4: "updateActionPlan a3 w3 = (x4, a4, w4)"
          by (cases "updateActionPlan a3 w3")
        with updateActionPlan_effect [OF c4] have p4: "updateActionPlan a3 w3 = (None, a4, w4)"
          by simp
        obtain x5 a5 w5 where c5: "updateReadme a4 w4 = (x5, a5, w5)"
          by (cases "updateReadme a4 w4")
        with updateReadme_effect [OF c5] have p5: "updateReadme a4 w4 = (None, a5, w5)"
          by simp
        have r: "run_phases phases a w = (None, a5, w5)"
          using p1 p2 p3 p4 p5 by (simp add: run_phases_unfold)
        then have "execute a w = (a5\<lparr>result := (result a5)\<lparr>success := True\<rparr>\<rparr>, w5)"
          by (simp add: execute_def)
        with e2 p3 p4 p5 r show ?thesis by blast
      qed
    qed
  qed
qed

text \<open>
  Claim C9. For an agent whose success flag is not yet set, as that of a new agent, the
  flag is set by \<open>execute\<close> exactly when no phase throws. The errors a phase records do not
  enter into it: the three phases of one query each never throw, whatever their query
  does. When no phase throws, every phase has run: the queries of the last three phases are
  among the calls made. When a phase throws, its message is recorded as the last error.
\<close>

theorem execute_success_iff:
  assumes "\<not> success (result a)"
  shows "(success (result (fst (execute a w))) \<longleftrightarrow> fst (run_phases phases a w) = None)
     \<and> (fst (run_phases phases a w) = None \<longrightarrow>
          Query (mcp_prompt (agent_team a)) \<in> set (calls (snd (execute a w)))
        \<and> Query (plan_prompt (agent_team a)) \<in> set (calls (snd (execute a w)))
        \<and> Query (readme_prompt (agent_team a)) \<in> set (calls (snd (execute a w))))
     \<and> (\<forall>b v. fst (checkMCPUpdates b v) = None \<and> fst (updateActionPlan b v) = None
          \<and> fst (updateReadme b v) = None)
     \<and> (\<forall>e. fst (run_phases phases a w) = Some e \<longrightarrow>
          errors (result (fst (execute a w))) = errors (result a) @ [message e])"
proof -
  have never: "\<forall>b v. fst (checkMCPUpdates b v) = None \<and> fst (updateActionPlan b v) = None
          \<and> fst (updateReadme b v) = None"
  proof (intro allI conjI)
    fix b v
    show "fst (checkMCPUpdates b v) = None"
      using checkMCPUpdates_effect [of b v] by (cases "checkMCPUpdates b v") simp
    show "fst (updateActionPlan b v) = None"
      using updateActionPlan_effect [of b v] by (cases "updateActionPlan b v") simp
    show "fst (updateReadme b v) = None"
      using updateReadme_effect [of b v] by (cases "updateReadme b v") simp
  qed
  from execute_cases [of a w] show ?thesis
  proof (elim disjE exE conjE)
    fix e w'
    assume r: "run_phases phases a w = (Some e, a, w')"
      and x: "execute a w = (push_error (message e) a, w')"
    from r x assms never show ?thesis
      by (simp add: push_error_def)
  next
    fix w2 a3 w3 a4 w4 a5 w5
    assume c3: "checkMCPUpdates a w2 = (None, a3, w3)"
      and c4: "updateActionPlan a3 w3 = (None, a4, w4)"
      and c5: "updateReadme a4 w4 = (None, a5, w5)"
      and r: "run_phases phases a w = (None, a5, w5)"
      and x: "execute a w = (a5\<lparr>result := (result a5)\<lparr>success := True\<rparr>\<rparr>, w5)"
    note f3 = checkMCPUpdates_effect [OF c3]
    note f4 = updateActionPlan_effect [OF c4]
    note f5 = updateReadme_effect [OF c5]
    have t4: "agent_team a3 = agent_team a" using f3 by (simp add: same_counts_def)
    have t5: "agent_team a4 = agent_team a" using f4 t4 by (simp add: same_counts_def)
    have q3: "Query (mcp_prompt (agent_team a)) \<in> set (calls w5)"
      using f3 f4 f5 extends_fields by blast
    have q4: "Query (plan_prompt (agent_team a)) \<in> set (calls w5)"
      using f4 f5 t4 extends_fields by (metis subsetD)
    have q5: "Query (readme_prompt (agent_team a)) \<in> set (calls w5)"
      using f5 t5 by simp
    from r x q3 q4 q5 never show ?thesis by simp
  qed
qed

text \<open>
  Two worlds with an empty call log: one in which the ledger is empty and every query
  fails, one in which the ledger cannot be fetched.
\<close>

definition world0 :: world where
  "world0 = \<lparr>calls = [],
     text_reply = (\<lambda>n c. case c of
         GetFile ow rn p b \<Rightarrow> Inr []
       | Query q \<Rightarrow> Inl (Error (js ''service unavailable''))
       | _ \<Rightarrow> Inr (js ''https://github.com/CyberBrown/de/issues/1'')),
     flag_reply = (\<lambda>n c. Inr True), unit_reply = (\<lambda>n c. None),
     stats_reply = (\<lambda>n. Inr (0, 0)), clock = (\<lambda>n. js ''2025-12-05T03:00:00.000Z''),
     toFixed = (\<lambda>d x. js ''0.00''), warnings = []\<rparr>"

definition world1 :: world where
  "world1 = world0\<lparr>text_reply := (\<lambda>n c. case c of
         GetFile ow rn p b \<Rightarrow> Inl (Error (js ''Not Found''))
       | Query q \<Rightarrow> Inr (js ''No updates needed'')
       | _ \<Rightarrow> Inr (js ''https://github.com/CyberBrown/de/issues/1''))\<rparr>"

text \<open>
  What a run of a fresh agent can have updated: at most the MCP log, the action plan and
  the README, each once, and at most one pending file.
\<close>

lemma execute_docs:
  "\<exists>d3 d4 d5. docsUpdated (result (fst (execute (new_agent t) w))) = d3 @ d4 @ d5
     \<and> (d3 = [] \<or> d3 = [mcpPath]) \<and> (d4 = [] \<or> d4 = [js ''docs/ACTION-PLAN.md''])
     \<and> (d5 = [] \<or> d5 = [js ''README.md''])
     \<and> (fileChanges (fst (execute (new_agent t) w)) = []
          \<or> (\<exists>c. fileChanges (fst (execute (new_agent t) w)) = [(mcpPath, c)]))
     \<and> questionsAnswered (result (fst (execute (new_agent t) w))) = 0
     \<and> answersReviewed (result (fst (execute (new_agent t) w))) = 0
     \<and> team (result (fst (execute (new_agent t) w))) = name t"
  using execute_cases [of "new_agent t" w]
proof (elim disjE exE conjE)
  fix e w'
  assume "execute (new_agent t) w = (push_error (message e) (new_agent t), w')"
  then show ?thesis
    by (simp add: push_error_def new_agent_def)
next
  fix w2 a3 w3 a4 w4 a5 w5
  assume c3: "checkMCPUpdates (new_agent t) w2 = (None, a3, w3)"
    and c4: "updateActionPlan a3 w3 = (None, a4, w4)"
    and c5: "updateReadme a4 w4 = (None, a5, w5)"
    and x: "execute (new_agent t) w = (a5\<lparr>result := (result a5)\<lparr>success := True\<rparr>\<rparr>, w5)"
  note f3 = checkMCPUpdates_effect [OF c3]
  note f4 = updateActionPlan_effect [OF c4]
  note f5 = updateReadme_effect [OF c5]
  obtain d3 where d3: "docsUpdated (result a3) = d3" "d3 = [] \<or> d3 = [mcpPath]"
    using f3 by (auto simp: new_agent_def)
  obtain d4 where d4: "docsUpdated (result a4) = d3 @ d4"
    "d4 = [] \<or> d4 = [js ''docs/ACTION-PLAN.md'']"
    using f4 d3(1) by auto
  obtain d5 where d5: "docsUpdated (result a5) = d3 @ d4 @ d5"
    "d5 = [] \<or> d5 = [js ''README.md'']"
    using f5 d4(1) by auto
  have fc: "fileChanges a5 = [] \<or> (\<exists>c. fileChanges a5 = [(mcpPath, c)])"
    using f3 f4 f5 by (auto simp: new_agent_def)
  have cnt: "questionsAnswered (result a5) = 0" "answersReviewed (result a5) = 0"
    "team (result a5) = name t"
    using f3 f4 f5 by (simp_all add: same_counts_def new_agent_def)
  show ?thesis
    apply (rule exI [of _ d3], rule exI [of _ d4], rule exI [of _ d5])
    using x d3(2) d4(2) d5 fc cnt by simp
qed

text \<open>
  Claim C10. The claim has the ledger path appended to \<open>docsUpdated\<close> once for every
  question answered, so that \<open>docsUpdated\<close> can hold a path several times. In every run
  of the pipeline, with any ledger and any answers of the services, no question is answered
  and no answer reviewed, the ledger path is never in \<open>docsUpdated\<close>, and \<open>docsUpdated\<close>
  holds no path twice: the parser stores the status glyph alone, and \<open>answerQuestions\<close>
  compares it with the glyph and the word.
\<close>

theorem execute_answers_no_question:
  "questionsAnswered (result (fst (execute (new_agent t) w))) = 0
   \<and> answersReviewed (result (fst (execute (new_agent t) w))) = 0
   \<and> count_list (docsUpdated (result (fst (execute (new_agent t) w)))) qaPath = 0
   \<and> distinct (docsUpdated (result (fst (execute (new_agent t) w))))"
proof -
  from execute_docs [of t w] obtain d3 d4 d5 where
    d: "docsUpdated (result (fst (execute (new_agent t) w))) = d3 @ d4 @ d5"
      "d3 = [] \<or> d3 = [mcpPath]" "d4 = [] \<or> d4 = [js ''docs/ACTION-PLAN.md'']"
      "d5 = [] \<or> d5 = [js ''README.md'']"
    and c: "questionsAnswered (result (fst (execute (new_agent t) w))) = 0"
      "answersReviewed (result (fst (execute (new_agent t) w))) = 0"
    by blast
  have ne: "mcpPath \<noteq> qaPath" "js ''docs/ACTION-PLAN.md'' \<noteq> qaPath" "js ''README.md'' \<noteq> qaPath"
    "mcpPath \<noteq> js ''docs/ACTION-PLAN.md''" "mcpPath \<noteq> js ''README.md''"
    "js ''docs/ACTION-PLAN.md'' \<noteq> js ''README.md''"
    by (simp_all add: mcpPath_def qaPath_def js_def)
  have "count_list (d3 @ d4 @ d5) qaPath = 0 \<and> distinct (d3 @ d4 @ d5)"
    using d(2,3,4) ne by auto
  with d(1) c show ?thesis by simp
qed

theorem execute_success_iff_witness:
  "success (result (fst (execute (new_agent (hd TEAMS)) world0)))
   \<and> length (errors (result (fst (execute (new_agent (hd TEAMS)) world0)))) = 3
   \<and> Query (readme_prompt (hd TEAMS)) \<in> set (calls (snd (execute (new_agent (hd TEAMS)) world0)))
   \<and> \<not> success (result (fst (execute (new_agent (hd TEAMS)) world1)))
   \<and> length (errors (result (fst (execute (new_agent (hd TEAMS)) world1)))) = 1"
proof -
  have h: "\<not> success (result (new_agent (hd TEAMS)))"
    by (simp add: new_agent_def)
  have r0: "run_phases phases (new_agent (hd TEAMS)) world0
      = (None, fst (execute (new_agent (hd TEAMS)) world0)\<lparr>result :=
           (result (fst (execute (new_agent (hd TEAMS)) world0)))\<lparr>success := False\<rparr>\<rparr>,
         snd (execute (new_agent (hd TEAMS)) world0))"
    by (simp add: execute_def run_phases_unfold answerQuestions_loads reviewAnswers_loads
        loadQABoard_def ask_text_def world0_def checkMCPUpdates_def updateActionPlan_def
        updateReadme_def push_error_def new_agent_def)
  have e0: "length (errors (result (fst (execute (new_agent (hd TEAMS)) world0)))) = 3"
    by (simp add: execute_def run_phases_unfold answerQuestions_loads reviewAnswers_loads
        loadQABoard_def ask_text_def world0_def checkMCPUpdates_def updateActionPlan_def
        updateReadme_def push_error_def new_agent_def)
  have r1: "fst (run_phases phases (new_agent (hd TEAMS)) world1)
      = Some (Error (js ''Failed to load Q&A board: '' @ to_string (Error (js ''Not Found''))))"
    by (simp add: run_phases_unfold answerQuestions_loads loadQABoard_def ask_text_def
        world1_def world0_def)
  note T0 = execute_success_iff [OF h, of world0]
  note T1 = execute_success_iff [OF h, of world1]
  from T0 r0 have s0: "success (result (fst (execute (new_agent (hd TEAMS)) world0)))"
    by simp
  from T0 r0 have q0: "Query (readme_prompt (hd TEAMS))
      \<in> set (calls (snd (execute (new_agent (hd TEAMS)) world0)))"
    by (simp add: new_agent_def)
  from T1 r1 have s1: "\<not> success (result (fst (execute (new_agent (hd TEAMS)) world1)))"
    by simp
  from T1 r1 have e1: "length (errors (result (fst (execute (new_agent (hd TEAMS)) world1)))) = 1"
    by (simp add: new_agent_def)
  from s0 e0 q0 s1 e1 show ?thesis by simp
qed


text \<open>The world in which the loop over the teams leaves off.\<close>

definition after_teams :: "TeamConfig list \<Rightarrow> world \<Rightarrow> world" where
  "after_teams ts w = snd (snd (snd (process_teams ts ([], [], [], w))))"









lemma after_teams_Nil [simp]: "after_teams [] w = w"
  by (simp add: after_teams_def)





















end
